theory Spec2Isabelle
  imports Complex_Main
begin

section \<open>Guitar tablature generation: the evolutionary search engine of GTG.py\<close>

text \<open>
  The Python program keeps its configuration in module-level constants and draws its
  randomness from the process-wide generator of the \<^verbatim>\<open>random\<close> module. Here the
  constants are the fields of a record that every function receives, with
  \<open>default_config\<close> holding the values written in the source, and the generator is an
  explicit stream of raw draws that every random operation consumes and hands on.
  Python exceptions are values: a function that can raise returns \<open>error + 'a\<close>.
\<close>

subsection \<open>Configuration\<close>

datatype error = IndexError | ValueError

type_synonym position = "int \<times> int"
type_synonym chromosome = "position list"
type_synonym population = "chromosome list"

record config =
  TUNING :: "int list"
  NUM_STRINGS :: int
  MAX_FRET :: int
  MELODY_LENGTH :: int
  POPULATION_SIZE :: int
  MUTATION_RATE :: rat
  NUM_GENERATIONS :: int
  SCALE_C_MAJOR :: "int list"

definition default_config :: config where
  "default_config =
     \<lparr> TUNING = [40, 45, 50, 55, 59, 64],
       NUM_STRINGS = 6,
       MAX_FRET = 15,
       MELODY_LENGTH = 30,
       POPULATION_SIZE = 100,
       MUTATION_RATE = 1 / 10,
       NUM_GENERATIONS = 200,
       SCALE_C_MAJOR = [0, 2, 4, 5, 7, 9, 11] \<rparr>"

subsection \<open>Python lists\<close>

text \<open>
  \<^verbatim>\<open>xs[i]\<close>: an index below zero counts from the end, and an index outside the list
  raises IndexError.
\<close>

definition py_index :: "'a list \<Rightarrow> int \<Rightarrow> error + 'a" where
  "py_index xs i =
     (if 0 \<le> i \<and> i < int (length xs) then Inr (xs ! nat i)
      else if i < 0 \<and> - int (length xs) \<le> i then Inr (xs ! nat (int (length xs) + i))
      else Inl IndexError)"

text \<open>\<^verbatim>\<open>xs[i] = v\<close>, with the same index rule.\<close>

definition py_setitem :: "'a list \<Rightarrow> int \<Rightarrow> 'a \<Rightarrow> error + 'a list" where
  "py_setitem xs i v =
     (if 0 \<le> i \<and> i < int (length xs) then Inr (xs[nat i := v])
      else if i < 0 \<and> - int (length xs) \<le> i then Inr (xs[nat (int (length xs) + i) := v])
      else Inl IndexError)"

text \<open>
  The slices \<^verbatim>\<open>xs[:k]\<close> and \<^verbatim>\<open>xs[k:]\<close>: a negative bound counts from the end, and
  every bound is clipped to the list.
\<close>

definition py_upto :: "'a list \<Rightarrow> int \<Rightarrow> 'a list" where
  "py_upto xs k = (if k < 0 then take (length xs - nat (- k)) xs else take (nat k) xs)"

definition py_from :: "'a list \<Rightarrow> int \<Rightarrow> 'a list" where
  "py_from xs k = (if k < 0 then drop (length xs - nat (- k)) xs else drop (nat k) xs)"

text \<open>
  A list comprehension \<^verbatim>\<open>[f(x) for x in xs]\<close> whose element expression can raise:
  the elements are computed from left to right and the first exception ends it.
\<close>

fun collect :: "('a \<Rightarrow> error + 'b) \<Rightarrow> 'a list \<Rightarrow> error + 'b list" where
  "collect f [] = Inr []"
| "collect f (x # xs) =
     (case f x of
        Inl e \<Rightarrow> Inl e
      | Inr y \<Rightarrow> (case collect f xs of Inl e \<Rightarrow> Inl e | Inr ys \<Rightarrow> Inr (y # ys)))"

subsection \<open>Fitness\<close>

definition get_note_midi :: "config \<Rightarrow> int \<Rightarrow> int \<Rightarrow> error + int" where
  "get_note_midi cfg string_idx fret =
     (case py_index (TUNING cfg) string_idx of
        Inl e \<Rightarrow> Inl e
      | Inr open_pitch \<Rightarrow> Inr (open_pitch + fret))"

text \<open>
  One pass of the loop \<^verbatim>\<open>for i in range(len(chromosome))\<close>: the score before the pass
  goes in and the score after it comes out. Every index read here is inside the lists,
  since \<open>i\<close> is below their common length and \<open>i - 1\<close> is read only when \<open>i > 0\<close>.
\<close>

definition fitness_step :: "config \<Rightarrow> chromosome \<Rightarrow> int list \<Rightarrow> nat \<Rightarrow> int \<Rightarrow> int" where
  "fitness_step cfg chromosome midi_notes i score =
     (let current_midi = midi_notes ! i;
          (string_idx, fret) = chromosome ! i;
          chroma = current_midi mod 12;
          score =
            (if chroma \<in> set (SCALE_C_MAJOR cfg)
             then (if chroma = 0 \<or> chroma = 7 then score + 10 + 5 else score + 10)
             else score - 50)
      in if i > 0
         then (let (prev_string, prev_fret) = chromosome ! (i - 1);
                   prev_midi = midi_notes ! (i - 1);
                   fret_dist = \<bar>fret - prev_fret\<bar>;
                   string_dist = \<bar>string_idx - prev_string\<bar>;
                   score = score - (fret_dist * 2 + string_dist * 5);
                   interval = \<bar>current_midi - prev_midi\<bar>
               in if interval > 12 then score - 20
                  else if interval = 0 then score - 5
                  else score)
         else score)"

definition fitness_function :: "config \<Rightarrow> chromosome \<Rightarrow> error + int" where
  "fitness_function cfg chromosome =
     (case collect (\<lambda>(s, f). get_note_midi cfg s f) chromosome of
        Inl e \<Rightarrow> Inl e
      | Inr midi_notes \<Rightarrow>
          (let score = fold (fitness_step cfg chromosome midi_notes)
                         [0..<length chromosome] 0
           in case py_index midi_notes (- 1) of
                Inl e \<Rightarrow> Inl e
              | Inr last_midi \<Rightarrow>
                  (let last_note_chroma = last_midi mod 12
                   in Inr (if last_note_chroma = 0 then score + 30 else score))))"

text \<open>
  The two per-note quantities the loop adds up, named for the statements below: the
  harmony term of lines 63 to 70 as a function of the chroma, and the amount lines 78
  to 90 subtract for a pair of consecutive notes (technique and contour together).
\<close>

definition harmony_term :: "config \<Rightarrow> int \<Rightarrow> int" where
  "harmony_term cfg chroma =
     (if chroma \<in> set (SCALE_C_MAJOR cfg)
      then (if chroma = 0 \<or> chroma = 7 then 15 else 10)
      else - 50)"

definition pair_penalty :: "position \<Rightarrow> int \<Rightarrow> position \<Rightarrow> int \<Rightarrow> int" where
  "pair_penalty prev prev_midi cur current_midi =
     (\<bar>snd cur - snd prev\<bar> * 2 + \<bar>fst cur - fst prev\<bar> * 5)
     + (if \<bar>current_midi - prev_midi\<bar> > 12 then 20
        else if \<bar>current_midi - prev_midi\<bar> = 0 then 5 else 0)"

subsection \<open>The random source\<close>

text \<open>
  The generator is a stream of raw draws, \<open>g 0, g 1, \<dots>\<close>; an operation reads the
  head and returns the rest. Every value an operation of \<^verbatim>\<open>random\<close> can return is
  the image of some raw draw, so a statement about every stream is a statement about
  every run.
\<close>

type_synonym rng = "nat \<Rightarrow> nat"
type_synonym 'a rand = "rng \<Rightarrow> error + ('a \<times> rng)"

definition next_raw :: "rng \<Rightarrow> nat \<times> rng" where
  "next_raw g = (g 0, (\<lambda>n. g (Suc n)))"

text \<open>\<^verbatim>\<open>random.randint(a, b)\<close>: an integer of \<open>[a, b]\<close>; ValueError when the range is empty.\<close>

definition randint :: "int \<Rightarrow> int \<Rightarrow> int rand" where
  "randint a b g =
     (if b < a then Inl ValueError
      else (case next_raw g of (r, g') \<Rightarrow> Inr (a + int (r mod nat (b - a + 1)), g')))"

text \<open>
  \<^verbatim>\<open>random.random()\<close>: a double of \<open>[0, 1)\<close>, which is a multiple of \<open>2\<^sup>-\<^sup>5\<^sup>3\<close> and so
  an exact rational. The program only compares it with the mutation rate, and the
  comparison of two doubles is exact. For the rate of the source the double nearest
  to 0.1 and the rational 1/10 admit the same draws: \<open>k / 2\<^sup>5\<^sup>3\<close> is below either
  exactly when \<open>k \<le> 900719925474099\<close>.
\<close>

definition random_random :: "rat rand" where
  "random_random g =
     (case next_raw g of (r, g') \<Rightarrow> Inr (of_nat (r mod 2 ^ 53) / 2 ^ 53, g'))"

text \<open>\<^verbatim>\<open>random.choice(seq)\<close>: an element of the sequence; IndexError when it is empty.\<close>

definition random_choice :: "'a list \<Rightarrow> 'a rand" where
  "random_choice seq g =
     (if seq = [] then Inl IndexError
      else (case next_raw g of (r, g') \<Rightarrow> Inr (seq ! (r mod length seq), g')))"

text \<open>\<^verbatim>\<open>[m() for _ in range(n)]\<close> for a random operation \<open>m\<close>.\<close>

fun repeat_rand :: "nat \<Rightarrow> 'a rand \<Rightarrow> 'a list rand" where
  "repeat_rand 0 m g = Inr ([], g)"
| "repeat_rand (Suc n) m g =
     (case m g of
        Inl e \<Rightarrow> Inl e
      | Inr (x, g1) \<Rightarrow>
          (case repeat_rand n m g1 of
             Inl e \<Rightarrow> Inl e
           | Inr (xs, g2) \<Rightarrow> Inr (x # xs, g2)))"

subsection \<open>Generation of candidates\<close>

definition generate_random_gene :: "config \<Rightarrow> position rand" where
  "generate_random_gene cfg g =
     (case randint 0 (NUM_STRINGS cfg - 1) g of
        Inl e \<Rightarrow> Inl e
      | Inr (s, g1) \<Rightarrow>
          (case randint 0 (MAX_FRET cfg) g1 of
             Inl e \<Rightarrow> Inl e
           | Inr (f, g2) \<Rightarrow> Inr ((s, f), g2)))"

definition generate_individual :: "config \<Rightarrow> chromosome rand" where
  "generate_individual cfg =
     repeat_rand (nat (MELODY_LENGTH cfg)) (generate_random_gene cfg)"

subsection \<open>Crossover and mutation\<close>

text \<open>The child of line 104 for a given split, and crossover drawing the split.\<close>

definition crossover_at :: "chromosome \<Rightarrow> chromosome \<Rightarrow> int \<Rightarrow> chromosome" where
  "crossover_at p1 p2 split = py_upto p1 split @ py_from p2 split"

definition crossover :: "chromosome \<Rightarrow> chromosome \<Rightarrow> chromosome rand" where
  "crossover p1 p2 g =
     (case randint 1 (int (length p1) - 1) g of
        Inl e \<Rightarrow> Inl e
      | Inr (split, g1) \<Rightarrow> Inr (crossover_at p1 p2 split, g1))"

text \<open>
  \<open>mutant\<close> is a copy of the argument; lists are values here, so the copy is the list.
  The draws come in the order of the source: the probability, then the index, then the
  two coordinates of the new gene.
\<close>

definition mutate :: "config \<Rightarrow> chromosome \<Rightarrow> chromosome rand" where
  "mutate cfg chromosome g =
     (let mutant = chromosome
      in case random_random g of
           Inl e \<Rightarrow> Inl e
         | Inr (u, g1) \<Rightarrow>
             if u < MUTATION_RATE cfg
             then (case randint 0 (int (length mutant) - 1) g1 of
                     Inl e \<Rightarrow> Inl e
                   | Inr (idx, g2) \<Rightarrow>
                       (case generate_random_gene cfg g2 of
                          Inl e \<Rightarrow> Inl e
                        | Inr (gene, g3) \<Rightarrow>
                            (case py_setitem mutant idx gene of
                               Inl e \<Rightarrow> Inl e
                             | Inr mutant' \<Rightarrow> Inr (mutant', g3))))
             else Inr (mutant, g1))"

subsection \<open>The evolution loop\<close>

text \<open>Line 119: every individual paired with its score.\<close>

definition score_population :: "config \<Rightarrow> population \<Rightarrow> error + (chromosome \<times> int) list" where
  "score_population cfg population =
     collect (\<lambda>ind. case fitness_function cfg ind of
                       Inl e \<Rightarrow> Inl e
                     | Inr v \<Rightarrow> Inr (ind, v)) population"

text \<open>
  \<^verbatim>\<open>int(POPULATION_SIZE * 0.3)\<close>: the product truncated towards zero. The double
  nearest to 0.3 is below 0.3 by less than half a unit in the last place of any
  product that is a whole number, so for every size a list can have the truncated
  double product is the truncated exact one.
\<close>

definition breeding_pool_size :: "config \<Rightarrow> int" where
  "breeding_pool_size cfg =
     (if 0 \<le> POPULATION_SIZE cfg then (POPULATION_SIZE cfg * 3) div 10
      else - ((- POPULATION_SIZE cfg * 3) div 10))"

text \<open>The loop \<^verbatim>\<open>while len(new_pop) < POPULATION_SIZE\<close> of lines 137 to 141.\<close>

function fill_population ::
  "config \<Rightarrow> chromosome list \<Rightarrow> population \<Rightarrow> population rand" where
  "fill_population cfg top_performers new_pop g =
     (if int (length new_pop) < POPULATION_SIZE cfg
      then (case random_choice top_performers g of
              Inl e \<Rightarrow> Inl e
            | Inr (parent1, g1) \<Rightarrow>
                (case random_choice top_performers g1 of
                   Inl e \<Rightarrow> Inl e
                 | Inr (parent2, g2) \<Rightarrow>
                     (case crossover parent1 parent2 g2 of
                        Inl e \<Rightarrow> Inl e
                      | Inr (crossed, g3) \<Rightarrow>
                          (case mutate cfg crossed g3 of
                             Inl e \<Rightarrow> Inl e
                           | Inr (child, g4) \<Rightarrow>
                               fill_population cfg top_performers (new_pop @ [child]) g4))))
      else Inr (new_pop, g))"
  by pat_completeness auto
termination
  by (relation "measure (\<lambda>(cfg, top_performers, new_pop, g).
                  nat (POPULATION_SIZE cfg - int (length new_pop)))") auto

text \<open>
  The body of the loop over the generations, lines 118 to 143. The sort is stable and
  descending, which is the stable ascending sort on the negated score. Printing is
  not modelled, but the logged expression \<^verbatim>\<open>scored_pop[0][1]\<close> is evaluated in the
  generations that log, and raises on an empty population.
\<close>

definition generation :: "config \<Rightarrow> nat \<Rightarrow> population \<Rightarrow> population rand" where
  "generation cfg gen population g =
     (case score_population cfg population of
        Inl e \<Rightarrow> Inl e
      | Inr scored \<Rightarrow>
          (let scored_pop = sort_key (\<lambda>x. - snd x) scored
           in if gen mod 50 = 0 \<and> scored_pop = [] then Inl IndexError
              else (let top_performers =
                          map fst (py_upto scored_pop (breeding_pool_size cfg))
                    in case py_index top_performers 0 of
                         Inl e \<Rightarrow> Inl e
                       | Inr elite \<Rightarrow> fill_population cfg top_performers [elite] g)))"

definition initial_population :: "config \<Rightarrow> population rand" where
  "initial_population cfg =
     repeat_rand (nat (POPULATION_SIZE cfg)) (generate_individual cfg)"

text \<open>
  The population and the random source after the first \<open>n\<close> passes of
  \<^verbatim>\<open>for gen in range(NUM_GENERATIONS)\<close>: pass number \<open>n\<close> (counting from 0) works on
  what the passes before it left.
\<close>

fun run_generations :: "config \<Rightarrow> nat \<Rightarrow> population \<Rightarrow> population rand" where
  "run_generations cfg 0 population g = Inr (population, g)"
| "run_generations cfg (Suc n) population g =
     (case run_generations cfg n population g of
        Inl e \<Rightarrow> Inl e
      | Inr (pop, g1) \<Rightarrow> generation cfg n pop g1)"

definition population_at :: "config \<Rightarrow> nat \<Rightarrow> population rand" where
  "population_at cfg n g =
     (case initial_population cfg g of
        Inl e \<Rightarrow> Inl e
      | Inr (population, g1) \<Rightarrow> run_generations cfg n population g1)"

text \<open>
  \<^verbatim>\<open>max(xs, key=key)\<close>: ValueError on an empty list, otherwise the first element
  whose key is the greatest.
\<close>

definition py_max_key :: "('a \<Rightarrow> error + int) \<Rightarrow> 'a list \<Rightarrow> error + 'a" where
  "py_max_key key xs =
     (if xs = [] then Inl ValueError
      else (case collect (\<lambda>x. case key x of Inl e \<Rightarrow> Inl e | Inr k \<Rightarrow> Inr (x, k)) xs of
              Inl e \<Rightarrow> Inl e
            | Inr [] \<Rightarrow> Inl ValueError
            | Inr (first # rest) \<Rightarrow>
                Inr (fst (fold (\<lambda>(x, k) (best, best_key).
                                   if k > best_key then (x, k) else (best, best_key))
                               rest first))))"

definition genetic_algorithm :: "config \<Rightarrow> chromosome rand" where
  "genetic_algorithm cfg g =
     (case population_at cfg (nat (NUM_GENERATIONS cfg)) g of
        Inl e \<Rightarrow> Inl e
      | Inr (population, g1) \<Rightarrow>
          (case py_max_key (fitness_function cfg) population of
             Inl e \<Rightarrow> Inl e
           | Inr best \<Rightarrow> Inr (best, g1)))"

subsection \<open>Well-formed data\<close>

text \<open>The invariants of the data model, as executable predicates.\<close>

definition in_bounds :: "config \<Rightarrow> position \<Rightarrow> bool" where
  "in_bounds cfg p \<longleftrightarrow>
     0 \<le> fst p \<and> fst p \<le> NUM_STRINGS cfg - 1 \<and> 0 \<le> snd p \<and> snd p \<le> MAX_FRET cfg"

definition wf_chromosome :: "config \<Rightarrow> chromosome \<Rightarrow> bool" where
  "wf_chromosome cfg c \<longleftrightarrow>
     int (length c) = MELODY_LENGTH cfg \<and> list_all (in_bounds cfg) c"

definition wf_population :: "config \<Rightarrow> population \<Rightarrow> bool" where
  "wf_population cfg pop \<longleftrightarrow>
     int (length pop) = POPULATION_SIZE cfg \<and> list_all (wf_chromosome cfg) pop"

text \<open>
  A fretboard the generators can draw from: at least one string, every string index
  they draw has an entry in the tuning table, and the fret ceiling is not negative.
\<close>

definition fretboard_ok :: "config \<Rightarrow> bool" where
  "fretboard_ok cfg \<longleftrightarrow>
     1 \<le> NUM_STRINGS cfg \<and> NUM_STRINGS cfg \<le> int (length (TUNING cfg))
       \<and> 0 \<le> MAX_FRET cfg"

text \<open>
  A configuration on which the loop runs: melodies of two notes or more, so that
  crossover has a split to draw, and a population whose top 30 percent is not empty.
\<close>

definition config_ok :: "config \<Rightarrow> bool" where
  "config_ok cfg \<longleftrightarrow>
     fretboard_ok cfg \<and> 2 \<le> MELODY_LENGTH cfg \<and> 4 \<le> POPULATION_SIZE cfg"

text \<open>The greatest score of a scored population.\<close>

definition best_score :: "(chromosome \<times> int) list \<Rightarrow> int" where
  "best_score scored = Max (set (map snd scored))"

text \<open>Comparisons of two scores, false when either evaluation raises.\<close>

definition scores_higher :: "config \<Rightarrow> chromosome \<Rightarrow> chromosome \<Rightarrow> bool" where
  "scores_higher cfg c c' =
     (case (fitness_function cfg c, fitness_function cfg c') of
        (Inr v, Inr v') \<Rightarrow> v' < v
      | _ \<Rightarrow> False)"

definition score_exceeds_by :: "config \<Rightarrow> chromosome \<Rightarrow> chromosome \<Rightarrow> int \<Rightarrow> bool" where
  "score_exceeds_by cfg c c' d =
     (case (fitness_function cfg c, fitness_function cfg c') of
        (Inr v, Inr v') \<Rightarrow> v = v' + d
      | _ \<Rightarrow> False)"

text \<open>A random source for the examples.\<close>

definition example_rng :: rng where
  "example_rng n = 7 * n + 3"

section \<open>Properties of the fitness evaluator\<close>

lemma collect_append:
  "collect f (xs @ ys) =
     (case collect f xs of
        Inl e \<Rightarrow> Inl e
      | Inr a \<Rightarrow> (case collect f ys of Inl e \<Rightarrow> Inl e | Inr b \<Rightarrow> Inr (a @ b)))"
  by (induction xs) (auto split: sum.splits)

lemma collect_length: "collect f xs = Inr ys \<Longrightarrow> length ys = length xs"
  by (induction xs arbitrary: ys) (auto split: sum.splits)

lemma collect_nth:
  "collect f xs = Inr ys \<Longrightarrow> i < length xs \<Longrightarrow> f (xs ! i) = Inr (ys ! i)"
proof (induction xs arbitrary: ys i)
  case Nil
  then show ?case by simp
next
  case (Cons x xs)
  then show ?case by (cases i) (auto split: sum.splits)
qed

lemma collect_total:
  "(\<And>x. x \<in> set xs \<Longrightarrow> \<exists>y. f x = Inr y) \<Longrightarrow> \<exists>ys. collect f xs = Inr ys"
proof (induction xs)
  case Nil
  then show ?case by simp
next
  case (Cons x xs)
  then obtain y where "f x = Inr y" by fastforce
  moreover from Cons obtain ys where "collect f xs = Inr ys" by fastforce
  ultimately show ?case by simp
qed

lemma fitness_step_arith:
  fixes score fd sd iv :: int
  shows "(if pos
          then (if 12 < iv
                then (if inkey then (if td then score + 10 + 5 else score + 10) else score - 50)
                       - (fd * 2 + sd * 5) - 20
                else if iv = 0
                then (if inkey then (if td then score + 10 + 5 else score + 10) else score - 50)
                       - (fd * 2 + sd * 5) - 5
                else (if inkey then (if td then score + 10 + 5 else score + 10) else score - 50)
                       - (fd * 2 + sd * 5))
          else (if inkey then (if td then score + 10 + 5 else score + 10) else score - 50))
         = score + (if inkey then (if td then 15 else 10) else - 50)
             - (if pos then fd * 2 + sd * 5 + (if 12 < iv then 20 else if iv = 0 then 5 else 0)
                else 0)"
  by simp

lemma fitness_step_eq:
  "fitness_step cfg c m i score =
     score + harmony_term cfg ((m ! i) mod 12)
       - (if i > 0 then pair_penalty (c ! (i - 1)) (m ! (i - 1)) (c ! i) (m ! i) else 0)"
proof -
  obtain s f where ci: "c ! i = (s, f)" by (cases "c ! i")
  obtain ps pf where cp: "c ! (i - 1) = (ps, pf)" by (cases "c ! (i - 1)")
  show ?thesis
    unfolding fitness_step_def harmony_term_def pair_penalty_def Let_def ci cp
      prod.case fst_conv snd_conv
    by (rule fitness_step_arith)
qed

lemma fold_fitness_step_take:
  assumes "k \<le> length c" "k \<le> length m"
  shows "fold (fitness_step cfg c m) [0..<k] s =
         fold (fitness_step cfg (take k c) (take k m)) [0..<k] s"
proof (rule fold_cong)
  fix i assume "i \<in> set [0..<k]"
  then have "i < k" by simp
  then show "fitness_step cfg c m i = fitness_step cfg (take k c) (take k m) i"
    by (intro ext) (simp add: fitness_step_eq)
qed simp_all

lemma get_note_midi_in_bounds:
  assumes "NUM_STRINGS cfg \<le> int (length (TUNING cfg))" "in_bounds cfg (s, f)"
  shows "get_note_midi cfg s f = Inr (TUNING cfg ! nat s + f)"
  using assms by (simp add: get_note_midi_def py_index_def in_bounds_def)

lemma py_index_last:
  "xs \<noteq> [] \<Longrightarrow> py_index xs (- 1) = Inr (last xs)"
  by (cases xs rule: rev_cases) (auto simp: py_index_def nth_append)

lemma fitness_function_split:
  "fitness_function cfg c =
     (case collect (\<lambda>(s, f). get_note_midi cfg s f) c of
        Inl e \<Rightarrow> Inl e
      | Inr m \<Rightarrow>
          (if c = [] then Inl IndexError
           else Inr (fold (fitness_step cfg c m) [0..<length c] 0
                     + (if last m mod 12 = 0 then 30 else 0))))"
proof (cases "collect (\<lambda>(s, f). get_note_midi cfg s f) c")
  case (Inl e)
  then show ?thesis by (simp add: fitness_function_def)
next
  case (Inr m)
  then have len: "length m = length c" by (rule collect_length)
  show ?thesis
  proof (cases "c = []")
    case True
    with Inr show ?thesis by (simp add: fitness_function_def py_index_def)
  next
    case False
    with len have "m \<noteq> []" by auto
    with Inr False show ?thesis
      by (simp add: fitness_function_def py_index_last)
  qed
qed

lemma fitness_function_total:
  assumes "NUM_STRINGS cfg \<le> int (length (TUNING cfg))" "c \<noteq> []" "list_all (in_bounds cfg) c"
  shows "\<exists>v. fitness_function cfg c = Inr v"
proof -
  have "\<exists>ys. collect (\<lambda>(s, f). get_note_midi cfg s f) c = Inr ys"
  proof (rule collect_total)
    fix x assume "x \<in> set c"
    with assms(3) have "in_bounds cfg x" by (simp add: list_all_iff)
    with assms(1) show "\<exists>y. (case x of (s, f) \<Rightarrow> get_note_midi cfg s f) = Inr y"
      by (cases x) (simp add: get_note_midi_in_bounds)
  qed
  with assms(2) show ?thesis by (auto simp: fitness_function_split)
qed

lemma fitness_function_single:
  "fitness_function cfg [(s, f)] =
     (case get_note_midi cfg s f of
        Inl e \<Rightarrow> Inl e
      | Inr m \<Rightarrow> Inr (harmony_term cfg (m mod 12) + (if m mod 12 = 0 then 30 else 0)))"
  by (simp add: fitness_function_split fitness_step_eq split: sum.splits)

lemma fitness_function_pair:
  assumes "get_note_midi cfg s1 f1 = Inr m1" "get_note_midi cfg s2 f2 = Inr m2"
  shows "fitness_function cfg [(s1, f1), (s2, f2)] =
           Inr (harmony_term cfg (m1 mod 12) + harmony_term cfg (m2 mod 12)
                - pair_penalty (s1, f1) m1 (s2, f2) m2
                + (if m2 mod 12 = 0 then 30 else 0))"
  using assms by (simp add: fitness_function_split fitness_step_eq upt_rec)

lemma fitness_function_snoc:
  assumes "xs \<noteq> []"
    and "collect (\<lambda>(s, f). get_note_midi cfg s f) xs = Inr ms"
    and "get_note_midi cfg (fst p) (snd p) = Inr a"
  shows "fitness_function cfg (xs @ [p]) =
           Inr (fold (fitness_step cfg xs ms) [0..<length xs] 0
                + harmony_term cfg (a mod 12)
                - pair_penalty (last xs) (last ms) p a
                + (if a mod 12 = 0 then 30 else 0))"
proof -
  have len: "length ms = length xs" using assms(2) by (rule collect_length)
  with assms(1) have ms: "ms \<noteq> []" by auto
  have col: "collect (\<lambda>(s, f). get_note_midi cfg s f) (xs @ [p]) = Inr (ms @ [a])"
    using assms(2,3) by (cases p) (simp add: collect_append)
  have pre: "fold (fitness_step cfg (xs @ [p]) (ms @ [a])) [0..<length xs] 0 =
             fold (fitness_step cfg xs ms) [0..<length xs] 0"
    using fold_fitness_step_take [of "length xs" "xs @ [p]" "ms @ [a]" cfg 0] len by simp
  have lx: "xs ! (length xs - Suc 0) = last xs"
    using assms(1) by (simp add: last_conv_nth)
  have lm: "ms ! (length xs - Suc 0) = last ms"
    using ms len by (simp add: last_conv_nth)
  have pos: "0 < length xs" using assms(1) by simp
  show ?thesis
    using len pos by (simp add: fitness_function_split col pre fitness_step_eq lx lm nth_append)
qed

lemma collect_prefix:
  "collect f (xs @ ys) = Inr zs \<Longrightarrow> \<exists>as. collect f xs = Inr as"
  by (simp add: collect_append split: sum.splits)

lemma collect_last:
  assumes "collect f xs = Inr ys" "xs \<noteq> []"
  shows "f (last xs) = Inr (last ys)"
proof -
  have len: "length ys = length xs" using assms(1) by (rule collect_length)
  with assms(2) have "ys \<noteq> []" by auto
  with assms len collect_nth [of f xs ys "length xs - 1"] show ?thesis
    by (simp add: last_conv_nth)
qed

lemma fitness_function_collect:
  "fitness_function cfg c = Inr v \<Longrightarrow> \<exists>m. collect (\<lambda>(s, f). get_note_midi cfg s f) c = Inr m"
  by (simp add: fitness_function_def split: sum.splits)

text \<open>
  C4, as amended. With the tuning and the pitch-class set of the source, and whatever
  the melody length is, the one-note candidates [(5,0)] (pitch 64, chroma 4) and
  [(5,1)] (pitch 65, chroma 5) both score 10: either chroma is in key, neither is
  the tonic or the dominant, and neither earns the resolution bonus.
\<close>

theorem scenario_A_equal_scores:
  "fitness_function (default_config\<lparr>MELODY_LENGTH := L\<rparr>) [(5, 0)] = Inr 10
   \<and> fitness_function (default_config\<lparr>MELODY_LENGTH := L\<rparr>) [(5, 1)] = Inr 10"
  by (simp add: fitness_function_single get_note_midi_def py_index_def default_config_def
        harmony_term_def)

text \<open>
  C4 as stated fails: with melody length 1, [(5,0)] does not score strictly higher
  than [(5,1)].
\<close>

theorem scenario_A_counterexample:
  "\<not> scores_higher (default_config\<lparr>MELODY_LENGTH := 1\<rparr>) [(5, 0)] [(5, 1)]"
  by (simp add: scores_higher_def fitness_function_single get_note_midi_def py_index_def
        default_config_def harmony_term_def)

text \<open>
  C6. With the standard tuning, [(0,0),(0,12)] scores strictly higher than
  [(0,0),(0,13)]. In general the score of a two-note candidate whose pitches are
  defined is the two harmony terms, minus twice the fret distance and five times the
  string distance, minus 20 exactly when the pitch interval is strictly greater than
  12 (and minus 5 when it is 0), plus 30 when the second note is a tonic.
\<close>

theorem scenario_B_contour_threshold:
  "scores_higher default_config [(0, 0), (0, 12)] [(0, 0), (0, 13)]
   \<and> (get_note_midi cfg s1 f1 = Inr m1 \<and> get_note_midi cfg s2 f2 = Inr m2 \<longrightarrow>
        fitness_function cfg [(s1, f1), (s2, f2)] =
          Inr (harmony_term cfg (m1 mod 12) + harmony_term cfg (m2 mod 12)
               - (\<bar>f2 - f1\<bar> * 2 + \<bar>s2 - s1\<bar> * 5)
               - (if \<bar>m2 - m1\<bar> > 12 then 20 else if \<bar>m2 - m1\<bar> = 0 then 5 else 0)
               + (if m2 mod 12 = 0 then 30 else 0)))"
proof
  have a: "get_note_midi default_config 0 0 = Inr 40"
    and b: "get_note_midi default_config 0 12 = Inr 52"
    and c: "get_note_midi default_config 0 13 = Inr 53"
    by (simp_all add: get_note_midi_def py_index_def default_config_def)
  have x: "fitness_function default_config [(0, 0), (0, 12)] = Inr (- 4)"
    unfolding fitness_function_pair [OF a b]
    by (simp add: harmony_term_def pair_penalty_def default_config_def)
  have y: "fitness_function default_config [(0, 0), (0, 13)] = Inr (- 26)"
    unfolding fitness_function_pair [OF a c]
    by (simp add: harmony_term_def pair_penalty_def default_config_def)
  show "scores_higher default_config [(0, 0), (0, 12)] [(0, 0), (0, 13)]"
    unfolding scores_higher_def x y by simp
next
  show "get_note_midi cfg s1 f1 = Inr m1 \<and> get_note_midi cfg s2 f2 = Inr m2 \<longrightarrow>
        fitness_function cfg [(s1, f1), (s2, f2)] =
          Inr (harmony_term cfg (m1 mod 12) + harmony_term cfg (m2 mod 12)
               - (\<bar>f2 - f1\<bar> * 2 + \<bar>s2 - s1\<bar> * 5)
               - (if \<bar>m2 - m1\<bar> > 12 then 20 else if \<bar>m2 - m1\<bar> = 0 then 5 else 0)
               + (if m2 mod 12 = 0 then 30 else 0))"
    by (auto simp: fitness_function_pair pair_penalty_def)
qed

theorem scenario_B_contour_threshold_witness:
  "get_note_midi default_config 0 0 = Inr 40 \<and> get_note_midi default_config 0 13 = Inr 53
   \<and> fitness_function default_config [(0, 0), (0, 13)] = Inr (- 26)"
proof -
  have a: "get_note_midi default_config 0 0 = Inr 40"
    and c: "get_note_midi default_config 0 13 = Inr 53"
    by (simp_all add: get_note_midi_def py_index_def default_config_def)
  from scenario_B_contour_threshold [of default_config 0 0 40 0 13 53] a c
  have "fitness_function default_config [(0, 0), (0, 13)] =
          Inr (harmony_term default_config (40 mod 12) + harmony_term default_config (53 mod 12)
               - (\<bar>13 - 0\<bar> * 2 + \<bar>0 - 0\<bar> * 5)
               - (if \<bar>53 - 40\<bar> > (12::int) then 20 else if \<bar>53 - 40\<bar> = (0::int) then 5 else 0)
               + (if 53 mod 12 = (0::int) then 30 else 0))"
    by blast
  then have "fitness_function default_config [(0, 0), (0, 13)] = Inr (- 26)"
    by (simp add: harmony_term_def default_config_def)
  with a c show ?thesis by simp
qed

text \<open>
  C8. For every candidate of length at least 1 whose positions are all within the
  configured bounds, on a fretboard whose tuning table covers the configured strings,
  the score is defined: the evaluation raises nothing and returns an integer. The
  score is a function of the configuration and the candidate alone (it neither reads
  nor advances the random source), so two evaluations agree. For length 1 no pair
  term is contributed: the score is the harmony term of the single note, plus 30 when
  that note is a tonic.
\<close>

theorem fitness_function_total_deterministic:
  assumes "NUM_STRINGS cfg \<le> int (length (TUNING cfg))"
    and "c \<noteq> []"
    and "list_all (in_bounds cfg) c"
  shows "(\<exists>v. fitness_function cfg c = Inr v)
         \<and> (\<forall>v w. fitness_function cfg c = Inr v \<and> fitness_function cfg c = Inr w
               \<longrightarrow> v = w)
         \<and> (\<forall>s f. c = [(s, f)] \<longrightarrow>
              fitness_function cfg c =
                Inr (harmony_term cfg ((TUNING cfg ! nat s + f) mod 12)
                     + (if (TUNING cfg ! nat s + f) mod 12 = 0 then 30 else 0)))"
proof (intro conjI)
  show "\<exists>v. fitness_function cfg c = Inr v"
    using assms by (rule fitness_function_total)
next
  show "\<forall>v w. fitness_function cfg c = Inr v \<and> fitness_function cfg c = Inr w
               \<longrightarrow> v = w"
    by auto
next
  show "\<forall>s f. c = [(s, f)] \<longrightarrow>
          fitness_function cfg c =
            Inr (harmony_term cfg ((TUNING cfg ! nat s + f) mod 12)
                 + (if (TUNING cfg ! nat s + f) mod 12 = 0 then 30 else 0))"
  proof (intro allI impI)
    fix s f assume c: "c = [(s, f)]"
    with assms(3) have "in_bounds cfg (s, f)" by simp
    with assms(1) have "get_note_midi cfg s f = Inr (TUNING cfg ! nat s + f)"
      by (rule get_note_midi_in_bounds)
    with c show "fitness_function cfg c =
            Inr (harmony_term cfg ((TUNING cfg ! nat s + f) mod 12)
                 + (if (TUNING cfg ! nat s + f) mod 12 = 0 then 30 else 0))"
      by (simp add: fitness_function_single)
  qed
qed

theorem fitness_function_total_deterministic_witness:
  "NUM_STRINGS default_config \<le> int (length (TUNING default_config))
   \<and> [(1, 3)] \<noteq> ([] :: chromosome)
   \<and> list_all (in_bounds default_config) [(1, 3)]
   \<and> fitness_function default_config [(1, 3)] = Inr 45"
proof -
  have h1: "NUM_STRINGS default_config \<le> int (length (TUNING default_config))"
    by (simp add: default_config_def)
  have h2: "[(1, 3)] \<noteq> ([] :: chromosome)" by simp
  have h3: "list_all (in_bounds default_config) [(1, 3)]"
    by (simp add: in_bounds_def default_config_def)
  from fitness_function_total_deterministic [OF h1 h2 h3]
  have "fitness_function default_config [(1, 3)] =
          Inr (harmony_term default_config ((TUNING default_config ! nat 1 + 3) mod 12)
               + (if (TUNING default_config ! nat 1 + 3) mod 12 = 0 then 30 else 0))"
    by blast
  then have "fitness_function default_config [(1, 3)] = Inr 45"
    by (simp add: harmony_term_def default_config_def)
  with h1 h2 h3 show ?thesis by blast
qed

text \<open>
  C10. The score of the empty candidate is not a number: the read of the last pitch
  raises IndexError, whatever the configuration. Among the candidates whose positions
  are all within bounds, the score is defined exactly for those of length at least 1.
\<close>

theorem fitness_function_empty_fails:
  "fitness_function cfg [] = Inl IndexError
   \<and> (NUM_STRINGS cfg \<le> int (length (TUNING cfg)) \<and> list_all (in_bounds cfg) c \<longrightarrow>
        ((\<exists>v. fitness_function cfg c = Inr v) \<longleftrightarrow> c \<noteq> []))"
proof
  show "fitness_function cfg [] = Inl IndexError"
    by (simp add: fitness_function_split)
next
  show "NUM_STRINGS cfg \<le> int (length (TUNING cfg)) \<and> list_all (in_bounds cfg) c \<longrightarrow>
        ((\<exists>v. fitness_function cfg c = Inr v) \<longleftrightarrow> c \<noteq> [])"
  proof (intro impI iffI; elim conjE)
    assume "\<exists>v. fitness_function cfg c = Inr v"
    then show "c \<noteq> []" by (auto simp: fitness_function_split)
  next
    assume "NUM_STRINGS cfg \<le> int (length (TUNING cfg))" "list_all (in_bounds cfg) c" "c \<noteq> []"
    then show "\<exists>v. fitness_function cfg c = Inr v"
      by (simp add: fitness_function_total)
  qed
qed

theorem fitness_function_empty_fails_witness:
  "NUM_STRINGS default_config \<le> int (length (TUNING default_config))
   \<and> list_all (in_bounds default_config) []
   \<and> \<not> (\<exists>v. fitness_function default_config [] = Inr v)"
proof -
  have h1: "NUM_STRINGS default_config \<le> int (length (TUNING default_config))"
    by (simp add: default_config_def)
  have h2: "list_all (in_bounds default_config) []" by simp
  from fitness_function_empty_fails [of default_config "[]"] h1 h2
  have "\<not> (\<exists>v. fitness_function default_config [] = Inr v)" by blast
  with h1 h2 show ?thesis by blast
qed

text \<open>
  C5 as stated fails. With the configuration of the source, [(0,0),(1,3)] ends on
  pitch 48 (chroma 0, the tonic) and [(0,0),(1,5)] ends on pitch 50 (chroma 2, in
  key and not the tonic); they agree in every position but the last, and they score
  44 and 5: the difference is 39, not 30.
\<close>

theorem scenario_C_counterexample:
  "get_note_midi default_config 1 3 = Inr 48
   \<and> get_note_midi default_config 1 5 = Inr 50
   \<and> fitness_function default_config [(0, 0), (1, 3)] = Inr 44
   \<and> fitness_function default_config [(0, 0), (1, 5)] = Inr 5
   \<and> \<not> score_exceeds_by default_config [(0, 0), (1, 3)] [(0, 0), (1, 5)] 30"
proof -
  have a: "get_note_midi default_config 0 0 = Inr 40"
    and b: "get_note_midi default_config 1 3 = Inr 48"
    and c: "get_note_midi default_config 1 5 = Inr 50"
    by (simp_all add: get_note_midi_def py_index_def default_config_def)
  have x: "fitness_function default_config [(0, 0), (1, 3)] = Inr 44"
    unfolding fitness_function_pair [OF a b]
    by (simp add: harmony_term_def pair_penalty_def default_config_def)
  have y: "fitness_function default_config [(0, 0), (1, 5)] = Inr 5"
    unfolding fitness_function_pair [OF a c]
    by (simp add: harmony_term_def pair_penalty_def default_config_def)
  have "\<not> score_exceeds_by default_config [(0, 0), (1, 3)] [(0, 0), (1, 5)] 30"
    unfolding score_exceeds_by_def x y by simp
  with b c x y show ?thesis by blast
qed

text \<open>
  C5, as amended. Let c end on the tonic and c' agree with c in every position but
  the last and end on an in-key chroma other than the tonic, both of length at least
  2 and both scored, with the tonic in key. Then score(c) is score(c') plus 30, plus
  5 unless c' ends on the dominant (the tonic's harmony bonus), plus the amount by
  which the technique and contour penalty of the last pair of c' exceeds that of the
  last pair of c (an amount that may be negative).
\<close>

theorem resolution_bonus_difference:
  assumes "xs \<noteq> []"
    and "fitness_function cfg (xs @ [p]) = Inr v"
    and "fitness_function cfg (xs @ [p']) = Inr v'"
    and "get_note_midi cfg (fst p) (snd p) = Inr a"
    and "get_note_midi cfg (fst p') (snd p') = Inr a'"
    and "get_note_midi cfg (fst (last xs)) (snd (last xs)) = Inr b"
    and "a mod 12 = 0" and "0 \<in> set (SCALE_C_MAJOR cfg)"
    and "a' mod 12 \<noteq> 0" and "a' mod 12 \<in> set (SCALE_C_MAJOR cfg)"
  shows "v = v' + 30 + (if a' mod 12 = 7 then 0 else 5)
               + (pair_penalty (last xs) b p' a' - pair_penalty (last xs) b p a)"
proof -
  from assms(2) obtain m where "collect (\<lambda>(s, f). get_note_midi cfg s f) (xs @ [p]) = Inr m"
    using fitness_function_collect by blast
  then obtain ms where ms: "collect (\<lambda>(s, f). get_note_midi cfg s f) xs = Inr ms"
    using collect_prefix by blast
  from collect_last [OF ms assms(1)] assms(6) have b: "last ms = b"
    by (simp add: case_prod_beta)
  have "v = fold (fitness_step cfg xs ms) [0..<length xs] 0 + harmony_term cfg (a mod 12)
              - pair_penalty (last xs) (last ms) p a + (if a mod 12 = 0 then 30 else 0)"
    using fitness_function_snoc [OF assms(1) ms assms(4)] assms(2) by simp
  moreover have "v' = fold (fitness_step cfg xs ms) [0..<length xs] 0
              + harmony_term cfg (a' mod 12)
              - pair_penalty (last xs) (last ms) p' a' + (if a' mod 12 = 0 then 30 else 0)"
    using fitness_function_snoc [OF assms(1) ms assms(5)] assms(3) by simp
  ultimately show ?thesis
    using assms(7-10) b by (simp add: harmony_term_def)
qed

theorem resolution_bonus_difference_witness:
  "fitness_function default_config ([(0, 0)] @ [(1, 3)]) = Inr 44
   \<and> fitness_function default_config ([(0, 0)] @ [(1, 5)]) = Inr 5
   \<and> (44::int) = 5 + 30 + 5 + (pair_penalty (0, 0) 40 (1, 5) 50 - pair_penalty (0, 0) 40 (1, 3) 48)"
proof -
  have a: "get_note_midi default_config 0 0 = Inr 40"
    and b: "get_note_midi default_config 1 3 = Inr 48"
    and c: "get_note_midi default_config 1 5 = Inr 50"
    by (simp_all add: get_note_midi_def py_index_def default_config_def)
  have x: "fitness_function default_config ([(0, 0)] @ [(1, 3)]) = Inr 44"
    unfolding append.simps fitness_function_pair [OF a b]
    by (simp add: harmony_term_def pair_penalty_def default_config_def)
  have y: "fitness_function default_config ([(0, 0)] @ [(1, 5)]) = Inr 5"
    unfolding append.simps fitness_function_pair [OF a c]
    by (simp add: harmony_term_def pair_penalty_def default_config_def)
  have "(44::int) = 5 + 30 + (if (50::int) mod 12 = 7 then 0 else 5)
          + (pair_penalty (last [(0, 0)]) 40 (1, 5) 50 - pair_penalty (last [(0, 0)]) 40 (1, 3) 48)"
  proof (rule resolution_bonus_difference [of "[(0, 0)]" default_config "(1, 3)" 44 "(1, 5)" 5 48 50 40])
    show "[(0, 0)] \<noteq> ([] :: chromosome)" by simp
    show "fitness_function default_config ([(0, 0)] @ [(1, 3)]) = Inr 44" by (rule x)
    show "fitness_function default_config ([(0, 0)] @ [(1, 5)]) = Inr 5" by (rule y)
    show "get_note_midi default_config (fst (1, 3)) (snd (1, 3)) = Inr 48" by (simp add: b)
    show "get_note_midi default_config (fst (1, 5)) (snd (1, 5)) = Inr 50" by (simp add: c)
    show "get_note_midi default_config (fst (last [(0, 0)])) (snd (last [(0, 0)])) = Inr 40"
      by (simp add: a)
    show "(48::int) mod 12 = 0" by simp
    show "0 \<in> set (SCALE_C_MAJOR default_config)" by (simp add: default_config_def)
    show "(50::int) mod 12 \<noteq> 0" by simp
    show "50 mod 12 \<in> set (SCALE_C_MAJOR default_config)" by (simp add: default_config_def)
  qed
  then show ?thesis using x y by simp
qed

section \<open>Properties of the random operators\<close>

declare fill_population.simps [simp del]

lemma randint_range:
  "randint a b g = Inr (v, g') \<Longrightarrow> a \<le> v \<and> v \<le> b"
proof -
  assume r: "randint a b g = Inr (v, g')"
  then have ab: "a \<le> b" by (auto simp: randint_def split: if_splits)
  then have pos: "0 < nat (b - a + 1)" by simp
  from r ab have v: "v = a + int (g 0 mod nat (b - a + 1))"
    by (auto simp: randint_def next_raw_def)
  have "g 0 mod nat (b - a + 1) < nat (b - a + 1)" using pos by (rule mod_less_divisor)
  then have "int (g 0 mod nat (b - a + 1)) < b - a + 1" using ab by linarith
  with v show ?thesis by simp
qed

lemma randint_total:
  "a \<le> b \<Longrightarrow> \<exists>v g'. randint a b g = Inr (v, g')"
  by (simp add: randint_def next_raw_def)

lemma randint_empty_range:
  "b < a \<Longrightarrow> randint a b g = Inl ValueError"
  by (simp add: randint_def)

lemma randint_reaches:
  assumes "a \<le> k" "k \<le> b"
  shows "randint a b (\<lambda>n. nat (k - a)) = Inr (k, (\<lambda>n. nat (k - a)))"
proof -
  have "nat (k - a) < nat (b - a + 1)" using assms by simp
  then have "nat (k - a) mod nat (b - a + 1) = nat (k - a)" by simp
  with assms show ?thesis by (simp add: randint_def next_raw_def)
qed

lemma random_choice_total:
  "seq \<noteq> [] \<Longrightarrow> \<exists>x g'. random_choice seq g = Inr (x, g') \<and> x \<in> set seq"
  by (simp add: random_choice_def next_raw_def)

lemma generate_random_gene_bounds:
  "generate_random_gene cfg g = Inr (p, g') \<Longrightarrow> in_bounds cfg p"
  by (auto simp: generate_random_gene_def in_bounds_def
        split: sum.splits prod.splits dest: randint_range)

lemma generate_random_gene_total:
  assumes "1 \<le> NUM_STRINGS cfg" "0 \<le> MAX_FRET cfg"
  shows "\<exists>p g'. generate_random_gene cfg g = Inr (p, g')"
proof -
  from assms(1) obtain s g1 where s: "randint 0 (NUM_STRINGS cfg - 1) g = Inr (s, g1)"
    using randint_total [of 0 "NUM_STRINGS cfg - 1" g] by auto
  from assms(2) obtain f g2 where f: "randint 0 (MAX_FRET cfg) g1 = Inr (f, g2)"
    using randint_total [of 0 "MAX_FRET cfg" g1] by auto
  from s f show ?thesis by (simp add: generate_random_gene_def)
qed

lemma crossover_at_length:
  assumes "length p1 = length p2" "0 \<le> k" "k \<le> int (length p1)"
  shows "length (crossover_at p1 p2 k) = length p1"
  using assms by (simp add: crossover_at_def py_upto_def py_from_def)

lemma crossover_at_take:
  assumes "0 \<le> k" "k \<le> int (length p1)"
  shows "take (nat k) (crossover_at p1 p2 k) = take (nat k) p1"
  using assms by (simp add: crossover_at_def py_upto_def py_from_def)

lemma crossover_at_drop:
  assumes "0 \<le> k" "k \<le> int (length p1)"
  shows "drop (nat k) (crossover_at p1 p2 k) = drop (nat k) p2"
  using assms by (simp add: crossover_at_def py_upto_def py_from_def)

lemma crossover_at_set:
  "set (crossover_at p1 p2 k) \<subseteq> set p1 \<union> set p2"
  by (auto simp: crossover_at_def py_upto_def py_from_def dest: in_set_takeD in_set_dropD)

lemma crossover_split:
  assumes "crossover p1 p2 g = Inr (c, g')"
  shows "\<exists>split. c = crossover_at p1 p2 split \<and> 1 \<le> split \<and> split \<le> int (length p1) - 1"
proof -
  from assms obtain split where r: "randint 1 (int (length p1) - 1) g = Inr (split, g')"
    and c: "c = crossover_at p1 p2 split"
    by (auto simp: crossover_def split: sum.splits)
  from randint_range [OF r] c show ?thesis by blast
qed

lemma crossover_total:
  "2 \<le> length p1 \<Longrightarrow> \<exists>c g'. crossover p1 p2 g = Inr (c, g')"
  using randint_total [of 1 "int (length p1) - 1" g] by (auto simp: crossover_def)

lemma crossover_short_fails:
  "length p1 < 2 \<Longrightarrow> crossover p1 p2 g = Inl ValueError"
  by (simp add: crossover_def randint_empty_range)

lemma random_random_total:
  "\<exists>u g1. random_random g = Inr (u, g1)"
  unfolding random_random_def next_raw_def prod.case by blast

lemma list_update_differs:
  "{j. j < length xs \<and> xs[i := x] ! j \<noteq> xs ! j} \<subseteq> {i}"
proof
  fix j assume "j \<in> {j. j < length xs \<and> xs[i := x] ! j \<noteq> xs ! j}"
  then have "xs[i := x] ! j \<noteq> xs ! j" by simp
  then have "j = i" using nth_list_update_neq [of i j xs x] by blast
  then show "j \<in> {i}" by simp
qed

lemma mutate_cases:
  assumes "mutate cfg c g = Inr (m, g')"
  shows "m = c \<or> (\<exists>i gene. i < length c \<and> in_bounds cfg gene \<and> m = c[i := gene])"
proof -
  obtain u g1 where u: "random_random g = Inr (u, g1)"
    using random_random_total by blast
  show ?thesis
  proof (cases "u < MUTATION_RATE cfg")
    case False
    with assms u show ?thesis by (simp add: mutate_def)
  next
    case True
    with assms u obtain idx g2 where idx: "randint 0 (int (length c) - 1) g1 = Inr (idx, g2)"
      by (auto simp: mutate_def split: sum.splits)
    with assms u True obtain gene g3 where gene: "generate_random_gene cfg g2 = Inr (gene, g3)"
      by (auto simp: mutate_def split: sum.splits)
    from idx have rng: "0 \<le> idx \<and> idx \<le> int (length c) - 1" by (rule randint_range)
    then have set: "py_setitem c idx gene = Inr (c[nat idx := gene])"
      by (simp add: py_setitem_def)
    from assms u True idx gene set have "m = c[nat idx := gene]"
      by (simp add: mutate_def)
    moreover from rng have "nat idx < length c" by linarith
    moreover from gene have "in_bounds cfg gene" by (rule generate_random_gene_bounds)
    ultimately show ?thesis by blast
  qed
qed

lemma mutate_total:
  assumes "c \<noteq> []" "1 \<le> NUM_STRINGS cfg" "0 \<le> MAX_FRET cfg"
  shows "\<exists>m g'. mutate cfg c g = Inr (m, g')"
proof -
  obtain u g1 where u: "random_random g = Inr (u, g1)"
    using random_random_total by blast
  show ?thesis
  proof (cases "u < MUTATION_RATE cfg")
    case False
    with u show ?thesis by (simp add: mutate_def)
  next
    case True
    from assms(1) have "0 \<le> int (length c) - 1" by (cases c) simp_all
    then obtain idx g2 where idx: "randint 0 (int (length c) - 1) g1 = Inr (idx, g2)"
      using randint_total by blast
    obtain gene g3 where gene: "generate_random_gene cfg g2 = Inr (gene, g3)"
      using generate_random_gene_total [OF assms(2,3)] by blast
    from idx have "0 \<le> idx \<and> idx \<le> int (length c) - 1" by (rule randint_range)
    then have "py_setitem c idx gene = Inr (c[nat idx := gene])"
      by (simp add: py_setitem_def)
    with u True idx gene show ?thesis by (simp add: mutate_def)
  qed
qed

text \<open>
  C2. For candidates A and B of the same length L, at least 2: crossover returns the
  child for a split it draws in [1, L-1], so never 0 and never L; and for every split
  k in [1, L-1] the child has length exactly L, its first k positions are A's first
  k, its remaining positions are B's from index k onward, and some run draws that
  split.
\<close>

theorem crossover_prefix_suffix:
  assumes "length p1 = length p2" and "2 \<le> length p1"
  shows "(\<exists>split g'. crossover p1 p2 g = Inr (crossover_at p1 p2 split, g')
            \<and> 1 \<le> split \<and> split \<le> int (length p1) - 1)
         \<and> (\<forall>k. 1 \<le> k \<and> k \<le> int (length p1) - 1 \<longrightarrow>
               length (crossover_at p1 p2 k) = length p1
               \<and> take (nat k) (crossover_at p1 p2 k) = take (nat k) p1
               \<and> drop (nat k) (crossover_at p1 p2 k) = drop (nat k) p2
               \<and> (\<exists>g0 g1. crossover p1 p2 g0 = Inr (crossover_at p1 p2 k, g1)))"
proof
  from assms(2) obtain c g' where c: "crossover p1 p2 g = Inr (c, g')"
    using crossover_total by blast
  with crossover_split [OF c]
  show "\<exists>split g'. crossover p1 p2 g = Inr (crossover_at p1 p2 split, g')
            \<and> 1 \<le> split \<and> split \<le> int (length p1) - 1"
    by blast
next
  show "\<forall>k. 1 \<le> k \<and> k \<le> int (length p1) - 1 \<longrightarrow>
               length (crossover_at p1 p2 k) = length p1
               \<and> take (nat k) (crossover_at p1 p2 k) = take (nat k) p1
               \<and> drop (nat k) (crossover_at p1 p2 k) = drop (nat k) p2
               \<and> (\<exists>g0 g1. crossover p1 p2 g0 = Inr (crossover_at p1 p2 k, g1))"
  proof (intro allI impI, elim conjE)
    fix k :: int
    assume k: "1 \<le> k" "k \<le> int (length p1) - 1"
    then have k0: "0 \<le> k" and kl: "k \<le> int (length p1)" by simp_all
    have "crossover p1 p2 (\<lambda>n. nat (k - 1)) = Inr (crossover_at p1 p2 k, (\<lambda>n. nat (k - 1)))"
      by (simp add: crossover_def randint_reaches [OF k])
    then have "\<exists>g0 g1. crossover p1 p2 g0 = Inr (crossover_at p1 p2 k, g1)" by blast
    with crossover_at_length [OF assms(1) k0 kl] crossover_at_take [OF k0 kl]
      crossover_at_drop [OF k0 kl]
    show "length (crossover_at p1 p2 k) = length p1
               \<and> take (nat k) (crossover_at p1 p2 k) = take (nat k) p1
               \<and> drop (nat k) (crossover_at p1 p2 k) = drop (nat k) p2
               \<and> (\<exists>g0 g1. crossover p1 p2 g0 = Inr (crossover_at p1 p2 k, g1))"
      by blast
  qed
qed

theorem crossover_prefix_suffix_witness:
  "length ([(0, 1), (1, 2), (2, 3)] :: chromosome)
     = length ([(3, 4), (4, 5), (5, 6)] :: chromosome)
   \<and> 2 \<le> length ([(0, 1), (1, 2), (2, 3)] :: chromosome)
   \<and> crossover_at [(0, 1), (1, 2), (2, 3)] [(3, 4), (4, 5), (5, 6)] 2 = [(0, 1), (1, 2), (5, 6)]
   \<and> take (nat 2) (crossover_at [(0, 1), (1, 2), (2, 3)] [(3, 4), (4, 5), (5, 6)] 2)
       = take (nat 2) [(0, 1), (1, 2), (2, 3)]"
proof -
  let ?A = "[(0, 1), (1, 2), (2, 3)] :: chromosome"
  let ?B = "[(3, 4), (4, 5), (5, 6)] :: chromosome"
  have h1: "length ?A = length ?B" by simp
  have h2: "2 \<le> length ?A" by simp
  have v: "crossover_at ?A ?B 2 = [(0, 1), (1, 2), (5, 6)]"
    by (simp add: crossover_at_def py_upto_def py_from_def)
  have "\<forall>k. 1 \<le> k \<and> k \<le> int (length ?A) - 1 \<longrightarrow>
               length (crossover_at ?A ?B k) = length ?A
               \<and> take (nat k) (crossover_at ?A ?B k) = take (nat k) ?A
               \<and> drop (nat k) (crossover_at ?A ?B k) = drop (nat k) ?B
               \<and> (\<exists>g0 g1. crossover ?A ?B g0 = Inr (crossover_at ?A ?B k, g1))"
    using crossover_prefix_suffix [OF h1 h2, of example_rng] by (rule conjunct2)
  then have "1 \<le> (2 :: int) \<and> 2 \<le> int (length ?A) - 1 \<longrightarrow>
               length (crossover_at ?A ?B 2) = length ?A
               \<and> take (nat 2) (crossover_at ?A ?B 2) = take (nat 2) ?A
               \<and> drop (nat 2) (crossover_at ?A ?B 2) = drop (nat 2) ?B
               \<and> (\<exists>g0 g1. crossover ?A ?B g0 = Inr (crossover_at ?A ?B 2, g1))"
    by (rule spec)
  moreover have "1 \<le> (2 :: int) \<and> 2 \<le> int (length ?A) - 1" by simp
  ultimately have "take (nat 2) (crossover_at ?A ?B 2) = take (nat 2) ?A" by blast
  with h1 h2 v show ?thesis by blast
qed

text \<open>
  C7. Whenever one call of mutate returns, for any input candidate and any
  configuration, the result has the length of the input, differs from it in at most
  one position, and every position that differs holds a string index in [0, S-1] and
  a fret in [0, F]. The call does return for every non-empty candidate when there is
  at least one string and the fret ceiling is not negative.
\<close>

theorem mutate_at_most_one_position:
  "(mutate cfg c g = Inr (m, g') \<longrightarrow>
      length m = length c
      \<and> card {j. j < length c \<and> m ! j \<noteq> c ! j} \<le> 1
      \<and> (\<forall>j. j < length c \<and> m ! j \<noteq> c ! j \<longrightarrow> in_bounds cfg (m ! j)))
   \<and> (c \<noteq> [] \<and> 1 \<le> NUM_STRINGS cfg \<and> 0 \<le> MAX_FRET cfg \<longrightarrow>
        (\<exists>m' g''. mutate cfg c g = Inr (m', g'')))"
proof
  show "mutate cfg c g = Inr (m, g') \<longrightarrow>
      length m = length c
      \<and> card {j. j < length c \<and> m ! j \<noteq> c ! j} \<le> 1
      \<and> (\<forall>j. j < length c \<and> m ! j \<noteq> c ! j \<longrightarrow> in_bounds cfg (m ! j))"
  proof
    assume "mutate cfg c g = Inr (m, g')"
    then consider "m = c"
      | i gene where "i < length c" "in_bounds cfg gene" "m = c[i := gene]"
      using mutate_cases by blast
    then show "length m = length c
      \<and> card {j. j < length c \<and> m ! j \<noteq> c ! j} \<le> 1
      \<and> (\<forall>j. j < length c \<and> m ! j \<noteq> c ! j \<longrightarrow> in_bounds cfg (m ! j))"
    proof cases
      case 1
      then show ?thesis by simp
    next
      case 2
      have "card {j. j < length c \<and> c[i := gene] ! j \<noteq> c ! j} \<le> card {i}"
        by (rule card_mono) (simp_all add: list_update_differs)
      then have "card {j. j < length c \<and> m ! j \<noteq> c ! j} \<le> 1" using 2(3) by simp
      moreover have "\<forall>j. j < length c \<and> m ! j \<noteq> c ! j \<longrightarrow> in_bounds cfg (m ! j)"
        using 2 by (auto simp: nth_list_update split: if_splits)
      ultimately show ?thesis using 2(3) by simp
    qed
  qed
next
  show "c \<noteq> [] \<and> 1 \<le> NUM_STRINGS cfg \<and> 0 \<le> MAX_FRET cfg \<longrightarrow>
        (\<exists>m' g''. mutate cfg c g = Inr (m', g''))"
    using mutate_total by blast
qed

theorem mutate_at_most_one_position_witness:
  "mutate default_config [(0, 1), (1, 2)] example_rng
     = Inr ([(5, 8), (1, 2)], (\<lambda>n. example_rng (Suc (Suc (Suc (Suc n))))))
   \<and> card {j. j < length ([(0, 1), (1, 2)] :: chromosome)
             \<and> ([(5, 8), (1, 2)] :: chromosome) ! j \<noteq> [(0, 1), (1, 2)] ! j} \<le> 1
   \<and> in_bounds default_config ([(5, 8), (1, 2)] ! 0)"
proof -
  let ?c = "[(0, 1), (1, 2)] :: chromosome"
  let ?m = "[(5, 8), (1, 2)] :: chromosome"
  let ?g = "\<lambda>n. example_rng (Suc (Suc (Suc (Suc n))))"
  have run: "mutate default_config ?c example_rng = Inr (?m, ?g)"
    by (simp add: mutate_def random_random_def randint_def generate_random_gene_def
          py_setitem_def next_raw_def example_rng_def default_config_def)
  have "mutate default_config ?c example_rng = Inr (?m, ?g) \<longrightarrow>
      length ?m = length ?c
      \<and> card {j. j < length ?c \<and> ?m ! j \<noteq> ?c ! j} \<le> 1
      \<and> (\<forall>j. j < length ?c \<and> ?m ! j \<noteq> ?c ! j \<longrightarrow> in_bounds default_config (?m ! j))"
    using mutate_at_most_one_position [of default_config ?c example_rng ?m ?g]
    by (rule conjunct1)
  then have all: "length ?m = length ?c
      \<and> card {j. j < length ?c \<and> ?m ! j \<noteq> ?c ! j} \<le> 1
      \<and> (\<forall>j. j < length ?c \<and> ?m ! j \<noteq> ?c ! j \<longrightarrow> in_bounds default_config (?m ! j))"
    using run by (rule mp)
  then have card: "card {j. j < length ?c \<and> ?m ! j \<noteq> ?c ! j} \<le> 1"
    by (elim conjE)
  from all have "\<forall>j. j < length ?c \<and> ?m ! j \<noteq> ?c ! j \<longrightarrow> in_bounds default_config (?m ! j)"
    by (elim conjE)
  then have "0 < length ?c \<and> ?m ! 0 \<noteq> ?c ! 0 \<longrightarrow> in_bounds default_config (?m ! 0)"
    by (rule spec)
  moreover have "0 < length ?c \<and> ?m ! 0 \<noteq> ?c ! 0" by simp
  ultimately have "in_bounds default_config (?m ! 0)" by (rule mp)
  with run card show ?thesis by (intro conjI)
qed

section \<open>Properties of the evolution loop\<close>

lemma repeat_rand_total:
  assumes "\<And>g. \<exists>x g'. m g = Inr (x, g') \<and> P x"
  shows "\<exists>xs g'. repeat_rand n m g = Inr (xs, g') \<and> length xs = n \<and> list_all P xs"
proof (induction n arbitrary: g)
  case 0
  show ?case by simp
next
  case (Suc n)
  from assms obtain x g1 where x: "m g = Inr (x, g1)" "P x" by blast
  from Suc obtain xs g2 where xs: "repeat_rand n m g1 = Inr (xs, g2)" "length xs = n"
    "list_all P xs" by blast
  from x xs show ?case by simp
qed

lemma generate_individual_total:
  assumes "1 \<le> NUM_STRINGS cfg" "0 \<le> MAX_FRET cfg"
  shows "\<exists>c g'. generate_individual cfg g = Inr (c, g')
           \<and> length c = nat (MELODY_LENGTH cfg) \<and> list_all (in_bounds cfg) c"
  unfolding generate_individual_def
proof (rule repeat_rand_total)
  fix g0
  from generate_random_gene_total [OF assms] obtain p g1
    where p: "generate_random_gene cfg g0 = Inr (p, g1)" by blast
  with generate_random_gene_bounds [OF p]
  show "\<exists>x g'. generate_random_gene cfg g0 = Inr (x, g') \<and> in_bounds cfg x" by blast
qed

lemma initial_population_total:
  assumes "1 \<le> NUM_STRINGS cfg" "0 \<le> MAX_FRET cfg"
  shows "\<exists>pop g'. initial_population cfg g = Inr (pop, g')
           \<and> length pop = nat (POPULATION_SIZE cfg)
           \<and> list_all (\<lambda>c. length c = nat (MELODY_LENGTH cfg) \<and> list_all (in_bounds cfg) c) pop"
  unfolding initial_population_def
  by (rule repeat_rand_total) (rule generate_individual_total [OF assms])

lemma initial_population_wf:
  assumes "config_ok cfg"
  shows "\<exists>pop g'. initial_population cfg g = Inr (pop, g') \<and> wf_population cfg pop"
proof -
  from assms have s: "1 \<le> NUM_STRINGS cfg" and f: "0 \<le> MAX_FRET cfg"
    and l: "0 \<le> MELODY_LENGTH cfg" and n: "0 \<le> POPULATION_SIZE cfg"
    by (simp_all add: config_ok_def fretboard_ok_def)
  from initial_population_total [OF s f, of g] obtain pop g'
    where p: "initial_population cfg g = Inr (pop, g')"
      "length pop = nat (POPULATION_SIZE cfg)"
      "list_all (\<lambda>c. length c = nat (MELODY_LENGTH cfg) \<and> list_all (in_bounds cfg) c) pop"
    by blast
  from p(3) l have "list_all (wf_chromosome cfg) pop"
    by (auto simp: list_all_iff wf_chromosome_def)
  with p(1,2) n show ?thesis by (auto simp: wf_population_def)
qed

lemma wf_chromosome_fitness:
  assumes "config_ok cfg" "wf_chromosome cfg c"
  shows "\<exists>v. fitness_function cfg c = Inr v"
proof -
  from assms have "c \<noteq> []" by (auto simp: config_ok_def wf_chromosome_def)
  moreover from assms have "NUM_STRINGS cfg \<le> int (length (TUNING cfg))"
    by (simp add: config_ok_def fretboard_ok_def)
  moreover from assms have "list_all (in_bounds cfg) c" by (simp add: wf_chromosome_def)
  ultimately show ?thesis by (simp add: fitness_function_total)
qed

lemma crossover_wf:
  assumes "config_ok cfg" "wf_chromosome cfg p1" "wf_chromosome cfg p2"
  shows "\<exists>c g'. crossover p1 p2 g = Inr (c, g') \<and> wf_chromosome cfg c"
proof -
  from assms have len: "length p1 = length p2" and two: "2 \<le> length p1"
    by (auto simp: config_ok_def wf_chromosome_def)
  from crossover_total [OF two] obtain c g' where c: "crossover p1 p2 g = Inr (c, g')"
    by blast
  from crossover_split [OF c] obtain split where s: "c = crossover_at p1 p2 split"
    "1 \<le> split" "split \<le> int (length p1) - 1" by blast
  then have "length c = length p1" using crossover_at_length [OF len, of split] by simp
  moreover have "set c \<subseteq> set p1 \<union> set p2" using s(1) crossover_at_set by simp
  ultimately have "wf_chromosome cfg c"
    using assms(2,3) by (auto simp: wf_chromosome_def list_all_iff)
  with c show ?thesis by blast
qed

lemma mutate_wf:
  assumes "config_ok cfg" "wf_chromosome cfg c"
  shows "\<exists>m g'. mutate cfg c g = Inr (m, g') \<and> wf_chromosome cfg m"
proof -
  from assms have ne: "c \<noteq> []" and s: "1 \<le> NUM_STRINGS cfg" and f: "0 \<le> MAX_FRET cfg"
    by (auto simp: config_ok_def fretboard_ok_def wf_chromosome_def)
  from mutate_total [OF ne s f] obtain m g' where m: "mutate cfg c g = Inr (m, g')"
    by blast
  from mutate_cases [OF m] have "wf_chromosome cfg m"
  proof
    assume "m = c"
    with assms(2) show ?thesis by simp
  next
    assume "\<exists>i gene. i < length c \<and> in_bounds cfg gene \<and> m = c[i := gene]"
    then obtain i gene where "in_bounds cfg gene" "m = c[i := gene]" by blast
    with assms(2) show ?thesis
      by (auto simp: wf_chromosome_def list_all_iff dest: set_update_subset_insert [THEN subsetD])
  qed
  with m show ?thesis by blast
qed

lemma fill_population_wf:
  assumes "config_ok cfg" "top_performers \<noteq> []" "list_all (wf_chromosome cfg) top_performers"
  shows "list_all (wf_chromosome cfg) new_pop \<Longrightarrow>
         int (length new_pop) \<le> POPULATION_SIZE cfg \<Longrightarrow>
         \<exists>pop g'. fill_population cfg top_performers new_pop g = Inr (pop, g')
           \<and> wf_population cfg pop \<and> take (length new_pop) pop = new_pop"
  using assms
proof (induction cfg top_performers new_pop g rule: fill_population.induct)
  case (1 cfg top_performers new_pop g)
  show ?case
  proof (cases "int (length new_pop) < POPULATION_SIZE cfg")
    case False
    with "1.prems" show ?thesis
      by (simp add: fill_population.simps wf_population_def)
  next
    case True
    from random_choice_total [OF "1.prems"(4)] obtain parent1 g1
      where p1: "random_choice top_performers g = Inr (parent1, g1)"
        "parent1 \<in> set top_performers" by blast
    from random_choice_total [OF "1.prems"(4)] obtain parent2 g2
      where p2: "random_choice top_performers g1 = Inr (parent2, g2)"
        "parent2 \<in> set top_performers" by blast
    from p1(2) p2(2) "1.prems"(5) have w1: "wf_chromosome cfg parent1"
      and w2: "wf_chromosome cfg parent2" by (simp_all add: list_all_iff)
    from crossover_wf [OF "1.prems"(3) w1 w2] obtain crossed g3
      where cr: "crossover parent1 parent2 g2 = Inr (crossed, g3)" "wf_chromosome cfg crossed"
      by blast
    from mutate_wf [OF "1.prems"(3) cr(2)] obtain child g4
      where ch: "mutate cfg crossed g3 = Inr (child, g4)" "wf_chromosome cfg child" by blast
    have "\<exists>pop g'. fill_population cfg top_performers (new_pop @ [child]) g4 = Inr (pop, g')
           \<and> wf_population cfg pop
           \<and> take (length (new_pop @ [child])) pop = new_pop @ [child]"
    proof (rule "1.IH" [OF True p1(1) refl p2(1) refl cr(1) refl ch(1) refl])
      show "list_all (wf_chromosome cfg) (new_pop @ [child])"
        using "1.prems"(1) ch(2) by simp
      show "int (length (new_pop @ [child])) \<le> POPULATION_SIZE cfg" using True by simp
    qed (rule "1.prems"(3) "1.prems"(4) "1.prems"(5))+
    then obtain pop g' where r: "fill_population cfg top_performers (new_pop @ [child]) g4
        = Inr (pop, g')" "wf_population cfg pop"
      "take (length (new_pop @ [child])) pop = new_pop @ [child]" by blast
    from r(3) have "take (length new_pop) (take (length (new_pop @ [child])) pop) = new_pop"
      by simp
    then have "take (length new_pop) pop = new_pop" by (simp add: min_def)
    moreover have "fill_population cfg top_performers new_pop g = Inr (pop, g')"
      using True p1(1) p2(1) cr(1) ch(1) r(1)
      by (subst fill_population.simps) simp
    ultimately show ?thesis using r(2) by blast
  qed
qed


lemma collect_paired:
  assumes "collect (\<lambda>x. case f x of Inl e \<Rightarrow> Inl e | Inr v \<Rightarrow> Inr (x, v)) xs = Inr sp"
  shows "map fst sp = xs \<and> (\<forall>p \<in> set sp. f (fst p) = Inr (snd p))"
  using assms
proof (induction xs arbitrary: sp)
  case Nil
  then show ?case by simp
next
  case (Cons x xs)
  then show ?case by (auto split: sum.splits)
qed

lemma score_population_sound:
  "score_population cfg pop = Inr sp \<Longrightarrow>
     map fst sp = pop \<and> (\<forall>p \<in> set sp. fitness_function cfg (fst p) = Inr (snd p))"
  unfolding score_population_def by (rule collect_paired)

lemma score_population_total:
  assumes "config_ok cfg" "list_all (wf_chromosome cfg) pop"
  shows "\<exists>sp. score_population cfg pop = Inr sp"
  unfolding score_population_def
proof (rule collect_total)
  fix c assume "c \<in> set pop"
  with assms(2) have "wf_chromosome cfg c" by (simp add: list_all_iff)
  from wf_chromosome_fitness [OF assms(1) this] obtain v
    where "fitness_function cfg c = Inr v" by blast
  then show "\<exists>y. (case fitness_function cfg c of Inl e \<Rightarrow> Inl e | Inr v \<Rightarrow> Inr (c, v)) = Inr y"
    by simp
qed

lemma sort_descending_head:
  assumes "sort_key (\<lambda>x. - snd x) sp = e # rest"
  shows "e \<in> set sp \<and> (\<forall>p \<in> set sp. snd p \<le> (snd e :: int))"
proof -
  have "set (sort_key (\<lambda>x. - snd x) sp) = set sp" by simp
  with assms have s: "set sp = insert e (set rest)" by simp
  have "sorted (map (\<lambda>x. - snd x) (sort_key (\<lambda>x. - snd x) sp))" by (rule sorted_sort_key)
  with assms have "\<forall>p \<in> set rest. - snd e \<le> - snd p" by simp
  with s show ?thesis by auto
qed

lemma best_score_head:
  assumes "sort_key (\<lambda>x. - snd x) sp = e # rest"
  shows "best_score sp = snd e"
proof -
  from sort_descending_head [OF assms] have e: "e \<in> set sp"
    and le: "\<forall>p \<in> set sp. snd p \<le> snd e" by simp_all
  show ?thesis unfolding best_score_def
  proof (rule Max_eqI)
    show "finite (set (map snd sp))" by simp
    show "snd e \<in> set (map snd sp)" using e by simp
    fix y assume "y \<in> set (map snd sp)"
    with le show "y \<le> snd e" by auto
  qed
qed

lemma breeding_pool_size_pos:
  "4 \<le> POPULATION_SIZE cfg \<Longrightarrow> 1 \<le> breeding_pool_size cfg"
  by (simp add: breeding_pool_size_def)

lemma generation_elitism:
  assumes "config_ok cfg" "wf_population cfg pop"
  shows "\<exists>pop' g' sp. generation cfg gen pop g = Inr (pop', g')
           \<and> wf_population cfg pop'
           \<and> score_population cfg pop = Inr sp
           \<and> pop' \<noteq> [] \<and> hd pop' \<in> set pop
           \<and> fitness_function cfg (hd pop') = Inr (best_score sp)"
proof -
  from assms have wfs: "list_all (wf_chromosome cfg) pop"
    and len: "int (length pop) = POPULATION_SIZE cfg" and four: "4 \<le> POPULATION_SIZE cfg"
    by (simp_all add: wf_population_def config_ok_def)
  from score_population_total [OF assms(1) wfs] obtain sp
    where sp: "score_population cfg pop = Inr sp" by blast
  from score_population_sound [OF sp] have fst_sp: "map fst sp = pop"
    and fit: "\<forall>p \<in> set sp. fitness_function cfg (fst p) = Inr (snd p)" by simp_all
  define scored_pop where "scored_pop = sort_key (\<lambda>x. - snd x) sp"
  from fst_sp have "length sp = length pop" by (metis length_map)
  with len four have "length scored_pop \<noteq> 0" by (auto simp: scored_pop_def)
  then obtain e rest where er: "scored_pop = e # rest" by (cases scored_pop) simp_all
  from er have head: "sort_key (\<lambda>x. - snd x) sp = e # rest" by (simp add: scored_pop_def)
  from sort_descending_head [OF head] have e_in: "e \<in> set sp" by simp
  from best_score_head [OF head] have best: "best_score sp = snd e" .
  define top_performers where
    "top_performers = map fst (py_upto scored_pop (breeding_pool_size cfg))"
  from breeding_pool_size_pos [OF four] have k: "1 \<le> breeding_pool_size cfg" .
  then have "0 < nat (breeding_pool_size cfg)" by simp
  then obtain j where j: "nat (breeding_pool_size cfg) = Suc j" by (cases "nat (breeding_pool_size cfg)") simp_all
  with k er have top: "top_performers = fst e # map fst (take j rest)"
    by (simp add: top_performers_def py_upto_def)
  then have top_ne: "top_performers \<noteq> []" by simp
  from top have idx: "py_index top_performers 0 = Inr (fst e)" by (simp add: py_index_def)
  have "set top_performers \<subseteq> fst ` set scored_pop"
    using k by (auto simp: top_performers_def py_upto_def dest: in_set_takeD)
  also have "\<dots> = set (map fst sp)" by (simp add: scored_pop_def)
  also have "\<dots> = set pop" by (simp only: fst_sp)
  finally have top_sub: "set top_performers \<subseteq> set pop" .
  with wfs have top_wf: "list_all (wf_chromosome cfg) top_performers"
    by (auto simp: list_all_iff)
  from e_in fst_sp have elite_in: "fst e \<in> set pop" by force
  with wfs have "list_all (wf_chromosome cfg) [fst e]" by (simp add: list_all_iff)
  moreover have "int (length [fst e]) \<le> POPULATION_SIZE cfg" using four by simp
  ultimately obtain pop' g' where fp: "fill_population cfg top_performers [fst e] g = Inr (pop', g')"
    "wf_population cfg pop'" "take (length [fst e]) pop' = [fst e]"
    using fill_population_wf [OF assms(1) top_ne top_wf, of "[fst e]" g] by blast
  from fp(3) have ne: "pop' \<noteq> []" by auto
  with fp(3) have hd: "hd pop' = fst e" by (cases pop') simp_all
  have sorted_ne: "sort_key (\<lambda>x. - snd x) sp \<noteq> []" using head by simp
  have tp: "map fst (py_upto (sort_key (\<lambda>x. - snd x) sp) (breeding_pool_size cfg))
              = top_performers"
    by (simp add: top_performers_def scored_pop_def)
  have "generation cfg gen pop g = Inr (pop', g')"
    unfolding generation_def Let_def sp sum.case tp
    using sorted_ne by (simp add: idx fp(1))
  moreover from fit e_in best hd have "fitness_function cfg (hd pop') = Inr (best_score sp)"
    by simp
  ultimately show ?thesis using fp(2) sp ne hd elite_in by auto
qed

lemma run_generations_wf:
  assumes "config_ok cfg" "wf_population cfg pop"
  shows "\<exists>pop' g'. run_generations cfg n pop g = Inr (pop', g') \<and> wf_population cfg pop'"
proof (induction n)
  case 0
  with assms(2) show ?case by simp
next
  case (Suc n)
  then obtain p g1 where p: "run_generations cfg n pop g = Inr (p, g1)" "wf_population cfg p"
    by blast
  from generation_elitism [OF assms(1) p(2), of n g1] obtain pop' g'
    where "generation cfg n p g1 = Inr (pop', g')" "wf_population cfg pop'" by blast
  with p(1) show ?case by simp
qed

lemma population_at_wf:
  assumes "config_ok cfg"
  shows "\<exists>pop g'. population_at cfg n g = Inr (pop, g') \<and> wf_population cfg pop"
proof -
  from initial_population_wf [OF assms, of g] obtain p g1
    where p: "initial_population cfg g = Inr (p, g1)" "wf_population cfg p" by blast
  from run_generations_wf [OF assms p(2), of n g1] p(1) show ?thesis
    by (simp add: population_at_def)
qed

lemma population_at_Suc:
  "population_at cfg (Suc n) g =
     (case population_at cfg n g of
        Inl e \<Rightarrow> Inl e
      | Inr (pop, g1) \<Rightarrow> generation cfg n pop g1)"
  by (simp add: population_at_def split: sum.splits prod.splits)

lemma default_config_ok: "config_ok default_config"
  by (simp add: config_ok_def fretboard_ok_def default_config_def)

text \<open>
  C3. On every configuration on which the loop runs (the one of the source among
  them), for every random source and every number n of generations completed, the
  population after n generations exists, has exactly N candidates, and every
  candidate in it has exactly L positions, all of them within bounds.
\<close>

theorem population_size_invariant:
  assumes "config_ok cfg"
  shows "\<exists>pop g'. population_at cfg n g = Inr (pop, g')
           \<and> int (length pop) = POPULATION_SIZE cfg
           \<and> (\<forall>c \<in> set pop. int (length c) = MELODY_LENGTH cfg
                \<and> (\<forall>p \<in> set c. in_bounds cfg p))"
proof -
  from population_at_wf [OF assms, of n g] obtain pop g'
    where p: "population_at cfg n g = Inr (pop, g')" "wf_population cfg pop" by blast
  from p(2) have "int (length pop) = POPULATION_SIZE cfg
           \<and> (\<forall>c \<in> set pop. int (length c) = MELODY_LENGTH cfg
                \<and> (\<forall>p \<in> set c. in_bounds cfg p))"
    by (auto simp: wf_population_def wf_chromosome_def list_all_iff)
  with p(1) show ?thesis by blast
qed

theorem population_size_invariant_witness:
  "config_ok default_config
   \<and> (\<exists>pop g'. population_at default_config 200 example_rng = Inr (pop, g')
           \<and> int (length pop) = 100
           \<and> (\<forall>c \<in> set pop. int (length c) = 30))"
proof -
  have ok: "config_ok default_config" by (rule default_config_ok)
  from population_size_invariant [OF ok, of 200 example_rng] obtain pop g'
    where "population_at default_config 200 example_rng = Inr (pop, g')"
      "int (length pop) = POPULATION_SIZE default_config"
      "\<forall>c \<in> set pop. int (length c) = MELODY_LENGTH default_config
                \<and> (\<forall>p \<in> set c. in_bounds default_config p)"
    by blast
  then have "\<exists>pop g'. population_at default_config 200 example_rng = Inr (pop, g')
           \<and> int (length pop) = 100
           \<and> (\<forall>c \<in> set pop. int (length c) = 30)"
    by (auto simp: default_config_def)
  with ok show ?thesis by blast
qed

text \<open>
  C1. On every configuration on which the loop runs, for every random source and
  every generation n: the populations of generation n and of generation n + 1 exist
  and can be scored, and the greatest score of generation n + 1 is at least the
  greatest score of generation n. The reason is elitism: the first member of
  generation n + 1 is a member of generation n whose score is the greatest of
  generation n.
\<close>

theorem best_score_monotone:
  assumes "config_ok cfg"
  shows "\<exists>pop g1 pop' g2 sp sp'.
           population_at cfg n g = Inr (pop, g1)
           \<and> population_at cfg (Suc n) g = Inr (pop', g2)
           \<and> score_population cfg pop = Inr sp
           \<and> score_population cfg pop' = Inr sp'
           \<and> pop' \<noteq> [] \<and> hd pop' \<in> set pop
           \<and> fitness_function cfg (hd pop') = Inr (best_score sp)
           \<and> best_score sp \<le> best_score sp'"
proof -
  from population_at_wf [OF assms, of n g] obtain pop g1
    where p: "population_at cfg n g = Inr (pop, g1)" "wf_population cfg pop" by blast
  from generation_elitism [OF assms p(2), of n g1] obtain pop' g2 sp
    where gen: "generation cfg n pop g1 = Inr (pop', g2)" "wf_population cfg pop'"
      "score_population cfg pop = Inr sp" "pop' \<noteq> []" "hd pop' \<in> set pop"
      "fitness_function cfg (hd pop') = Inr (best_score sp)" by blast
  from p(1) gen(1) have next_pop: "population_at cfg (Suc n) g = Inr (pop', g2)"
    by (simp add: population_at_Suc)
  from gen(2) have "list_all (wf_chromosome cfg) pop'" by (simp add: wf_population_def)
  from score_population_total [OF assms this] obtain sp'
    where sp': "score_population cfg pop' = Inr sp'" by blast
  from score_population_sound [OF sp'] have fst_sp': "map fst sp' = pop'"
    and fit': "\<forall>q \<in> set sp'. fitness_function cfg (fst q) = Inr (snd q)" by simp_all
  from gen(4) have "hd pop' \<in> set pop'" by simp
  with fst_sp' obtain q where q: "q \<in> set sp'" "fst q = hd pop'" by force
  with fit' gen(6) have "snd q = best_score sp" by force
  with q(1) have "best_score sp \<in> set (map snd sp')" by force
  then have "best_score sp \<le> best_score sp'"
    unfolding best_score_def by (intro Max_ge) simp_all
  with p(1) next_pop gen(3) sp' gen(4,5,6) show ?thesis by blast
qed

theorem best_score_monotone_witness:
  "config_ok default_config
   \<and> (\<exists>pop g1 pop' g2 sp sp'.
           population_at default_config 7 example_rng = Inr (pop, g1)
           \<and> population_at default_config (Suc 7) example_rng = Inr (pop', g2)
           \<and> score_population default_config pop = Inr sp
           \<and> score_population default_config pop' = Inr sp'
           \<and> best_score sp \<le> best_score sp')"
proof -
  have ok: "config_ok default_config" by (rule default_config_ok)
  from best_score_monotone [OF ok, of 7 example_rng]
  have "\<exists>pop g1 pop' g2 sp sp'.
           population_at default_config 7 example_rng = Inr (pop, g1)
           \<and> population_at default_config (Suc 7) example_rng = Inr (pop', g2)
           \<and> score_population default_config pop = Inr sp
           \<and> score_population default_config pop' = Inr sp'
           \<and> best_score sp \<le> best_score sp'"
    by blast
  with ok show ?thesis by blast
qed

section \<open>Configurations the program accepts\<close>

lemma py_max_key_total:
  assumes "xs \<noteq> []" "\<And>x. x \<in> set xs \<Longrightarrow> \<exists>k. key x = Inr k"
  shows "\<exists>best. py_max_key key xs = Inr best"
proof -
  have "\<exists>ys. collect (\<lambda>x. case key x of Inl e \<Rightarrow> Inl e | Inr k \<Rightarrow> Inr (x, k)) xs = Inr ys"
  proof (rule collect_total)
    fix x assume "x \<in> set xs"
    from assms(2) [OF this] obtain k where "key x = Inr k" by blast
    then show "\<exists>y. (case key x of Inl e \<Rightarrow> Inl e | Inr k \<Rightarrow> Inr (x, k)) = Inr y" by simp
  qed
  then obtain keyed
    where k: "collect (\<lambda>x. case key x of Inl e \<Rightarrow> Inl e | Inr k \<Rightarrow> Inr (x, k)) xs = Inr keyed"
    by blast
  from collect_length [OF k] assms(1) obtain first rest where "keyed = first # rest"
    by (cases keyed) auto
  with k assms(1) show ?thesis by (simp add: py_max_key_def)
qed

lemma genetic_algorithm_total:
  assumes "config_ok cfg"
  shows "\<exists>best g'. genetic_algorithm cfg g = Inr (best, g')"
proof -
  from population_at_wf [OF assms, of "nat (NUM_GENERATIONS cfg)" g] obtain pop g1
    where p: "population_at cfg (nat (NUM_GENERATIONS cfg)) g = Inr (pop, g1)"
      "wf_population cfg pop" by blast
  from p(2) assms have ne: "pop \<noteq> []"
    by (auto simp: wf_population_def config_ok_def)
  have "\<exists>best. py_max_key (fitness_function cfg) pop = Inr best"
  proof (rule py_max_key_total [OF ne])
    fix c assume "c \<in> set pop"
    with p(2) have "wf_chromosome cfg c" by (simp add: wf_population_def list_all_iff)
    from wf_chromosome_fitness [OF assms this]
    show "\<exists>k. fitness_function cfg c = Inr k" .
  qed
  then obtain best where "py_max_key (fitness_function cfg) pop = Inr best" by blast
  with p(1) show ?thesis by (simp add: genetic_algorithm_def)
qed

lemma py_upto_subset: "set (py_upto xs k) \<subseteq> set xs"
  by (auto simp: py_upto_def dest: in_set_takeD)

lemma run_generations_first_failure:
  "generation cfg 0 pop g = Inl e \<Longrightarrow> run_generations cfg (Suc m) pop g = Inl e"
  by (induction m) simp_all

lemma generation_empty_population:
  "generation cfg 0 [] g = Inl IndexError"
  by (simp add: generation_def score_population_def)

lemma generation_empty_melody:
  "generation cfg gen ([] # rest) g = Inl IndexError"
  by (simp add: generation_def score_population_def fitness_function_split)

lemma fill_population_short_parents:
  assumes "top_performers \<noteq> []" "\<forall>c \<in> set top_performers. length c < 2"
    and "int (length new_pop) < POPULATION_SIZE cfg"
  shows "fill_population cfg top_performers new_pop g = Inl ValueError"
proof -
  from random_choice_total [OF assms(1)] obtain parent1 g1
    where p1: "random_choice top_performers g = Inr (parent1, g1)"
      "parent1 \<in> set top_performers" by blast
  from random_choice_total [OF assms(1)] obtain parent2 g2
    where p2: "random_choice top_performers g1 = Inr (parent2, g2)" by blast
  from p1(2) assms(2) have "length parent1 < 2" by simp
  then have "crossover parent1 parent2 g2 = Inl ValueError" by (rule crossover_short_fails)
  with assms(3) p1(1) p2 show ?thesis by (subst fill_population.simps) simp
qed

lemma generation_single_note:
  assumes "fretboard_ok cfg" "int (length pop) = POPULATION_SIZE cfg" "pop \<noteq> []"
    and "\<forall>c \<in> set pop. length c = 1 \<and> list_all (in_bounds cfg) c"
  shows "\<exists>e. generation cfg gen pop g = Inl e"
proof -
  from assms(1) have tun: "NUM_STRINGS cfg \<le> int (length (TUNING cfg))"
    by (simp add: fretboard_ok_def)
  have "\<exists>sp. score_population cfg pop = Inr sp"
    unfolding score_population_def
  proof (rule collect_total)
    fix c assume "c \<in> set pop"
    with assms(4) have "c \<noteq> []" "list_all (in_bounds cfg) c" by auto
    from fitness_function_total [OF tun this] obtain v
      where "fitness_function cfg c = Inr v" by blast
    then show "\<exists>y. (case fitness_function cfg c of Inl e \<Rightarrow> Inl e | Inr v \<Rightarrow> Inr (c, v)) = Inr y"
      by simp
  qed
  then obtain sp where sp: "score_population cfg pop = Inr sp" by blast
  from score_population_sound [OF sp] have fst_sp: "map fst sp = pop" by simp
  define top_performers where
    "top_performers =
       map fst (py_upto (sort_key (\<lambda>x. - snd x) sp) (breeding_pool_size cfg))"
  show ?thesis
  proof (cases "top_performers = []")
    case True
    then have "py_index top_performers 0 = Inl IndexError" by (simp add: py_index_def)
    then have "generation cfg gen pop g = Inl IndexError"
      unfolding generation_def Let_def sp sum.case
      by (simp flip: top_performers_def)
    then show ?thesis by blast
  next
    case False
    then obtain elite where elite: "py_index top_performers 0 = Inr elite"
      by (cases top_performers) (simp_all add: py_index_def)
    have "sort_key (\<lambda>x. - snd x) sp = [] \<Longrightarrow> top_performers = []"
      by (simp add: top_performers_def py_upto_def)
    with False have sorted_ne: "sort_key (\<lambda>x. - snd x) sp \<noteq> []" by blast
    from assms(2,3) have pos: "1 \<le> POPULATION_SIZE cfg" by (cases pop) auto
    from False have "py_upto (sort_key (\<lambda>x. - snd x) sp) (breeding_pool_size cfg) \<noteq> []"
      by (simp add: top_performers_def)
    with pos have "breeding_pool_size cfg \<noteq> 0"
      by (auto simp: py_upto_def breeding_pool_size_def split: if_splits)
    with pos have big: "int (length [elite]) < POPULATION_SIZE cfg"
      by (simp add: breeding_pool_size_def split: if_splits)
    have "set top_performers
            = fst ` set (py_upto (sort_key (\<lambda>x. - snd x) sp) (breeding_pool_size cfg))"
      by (simp add: top_performers_def)
    also have "\<dots> \<subseteq> fst ` set (sort_key (\<lambda>x. - snd x) sp)"
      by (rule image_mono) (rule py_upto_subset)
    also have "\<dots> = set (map fst sp)" by simp
    also have "\<dots> = set pop" by (simp only: fst_sp)
    finally have "set top_performers \<subseteq> set pop" .
    with assms(4) have short: "\<forall>c \<in> set top_performers. length c < 2" by auto
    from fill_population_short_parents [OF False short big]
    have "fill_population cfg top_performers [elite] g = Inl ValueError" .
    with elite sorted_ne have "generation cfg gen pop g = Inl ValueError"
      unfolding generation_def Let_def sp sum.case
      by (simp flip: top_performers_def)
    then show ?thesis by blast
  qed
qed

lemma first_generation_fails:
  assumes "fretboard_ok cfg"
    and "MELODY_LENGTH cfg < 2 \<or> POPULATION_SIZE cfg < 1"
  shows "\<exists>pop g1 e. initial_population cfg g = Inr (pop, g1)
           \<and> generation cfg 0 pop g1 = Inl e"
proof -
  from assms(1) have s: "1 \<le> NUM_STRINGS cfg" and f: "0 \<le> MAX_FRET cfg"
    by (simp_all add: fretboard_ok_def)
  from initial_population_total [OF s f, of g] obtain pop g1
    where p: "initial_population cfg g = Inr (pop, g1)"
      "length pop = nat (POPULATION_SIZE cfg)"
      "list_all (\<lambda>c. length c = nat (MELODY_LENGTH cfg) \<and> list_all (in_bounds cfg) c) pop"
    by blast
  have "\<exists>e. generation cfg 0 pop g1 = Inl e"
  proof (cases "POPULATION_SIZE cfg < 1")
    case True
    with p(2) have "pop = []" by simp
    then show ?thesis using generation_empty_population by blast
  next
    case False
    with assms(2) have short: "MELODY_LENGTH cfg < 2" by simp
    from False p(2) have len: "int (length pop) = POPULATION_SIZE cfg" by simp
    from False p(2) obtain c rest where cr: "pop = c # rest" by (cases pop) auto
    show ?thesis
    proof (cases "MELODY_LENGTH cfg \<le> 0")
      case True
      with p(3) cr have "c = []" by simp
      with cr show ?thesis using generation_empty_melody by blast
    next
      case False
      with short have "nat (MELODY_LENGTH cfg) = 1" by simp
      with p(3) have "\<forall>c \<in> set pop. length c = 1 \<and> list_all (in_bounds cfg) c"
        by (simp add: list_all_iff)
      moreover from cr have "pop \<noteq> []" by simp
      ultimately show ?thesis using generation_single_note [OF assms(1) len] by blast
    qed
  qed
  with p(1) show ?thesis by blast
qed

text \<open>
  C9 as stated fails. The configuration of the source with an empty pitch-class set
  is malformed, yet setting up the population reports nothing and the whole run
  returns a candidate.
\<close>

theorem empty_scale_accepted_counterexample:
  "\<not> isl (initial_population (default_config\<lparr>SCALE_C_MAJOR := []\<rparr>) example_rng)
   \<and> \<not> isl (genetic_algorithm (default_config\<lparr>SCALE_C_MAJOR := []\<rparr>) example_rng)"
proof -
  have ok: "config_ok (default_config\<lparr>SCALE_C_MAJOR := []\<rparr>)"
    by (simp add: config_ok_def fretboard_ok_def default_config_def)
  from initial_population_wf [OF ok, of example_rng]
  have "\<not> isl (initial_population (default_config\<lparr>SCALE_C_MAJOR := []\<rparr>) example_rng)"
    by auto
  moreover from genetic_algorithm_total [OF ok, of example_rng]
  have "\<not> isl (genetic_algorithm (default_config\<lparr>SCALE_C_MAJOR := []\<rparr>) example_rng)"
    by auto
  ultimately show ?thesis by blast
qed

text \<open>
  C9, as amended. The program validates no configuration. Setting up the population
  succeeds whatever the melody length, the population size and the pitch-class set
  are, given at least one string and a non-negative fret ceiling. On a consistent
  fretboard with L at least 2 and N at least 4 the run raises nothing and returns a
  candidate, for every pitch-class set, the empty one included. With L below 2 or N
  below 1, and at least one generation to run, the population is set up and the run
  then fails inside the first generation with a Python IndexError or ValueError.
\<close>

theorem no_configuration_check:
  "(1 \<le> NUM_STRINGS cfg \<and> 0 \<le> MAX_FRET cfg \<longrightarrow>
      (\<exists>pop g1. initial_population cfg g = Inr (pop, g1)))
   \<and> (config_ok cfg \<longrightarrow> (\<exists>best g'. genetic_algorithm cfg g = Inr (best, g')))
   \<and> (fretboard_ok cfg \<and> 1 \<le> NUM_GENERATIONS cfg
        \<and> (MELODY_LENGTH cfg < 2 \<or> POPULATION_SIZE cfg < 1) \<longrightarrow>
      (\<exists>pop g1 e. initial_population cfg g = Inr (pop, g1)
         \<and> generation cfg 0 pop g1 = Inl e
         \<and> genetic_algorithm cfg g = Inl e))"
proof (intro conjI impI)
  assume "1 \<le> NUM_STRINGS cfg \<and> 0 \<le> MAX_FRET cfg"
  then show "\<exists>pop g1. initial_population cfg g = Inr (pop, g1)"
    using initial_population_total [of cfg g] by blast
next
  assume "config_ok cfg"
  then show "\<exists>best g'. genetic_algorithm cfg g = Inr (best, g')"
    by (rule genetic_algorithm_total)
next
  assume a: "fretboard_ok cfg \<and> 1 \<le> NUM_GENERATIONS cfg
        \<and> (MELODY_LENGTH cfg < 2 \<or> POPULATION_SIZE cfg < 1)"
  then have fb: "fretboard_ok cfg"
    and bad: "MELODY_LENGTH cfg < 2 \<or> POPULATION_SIZE cfg < 1" by simp_all
  from first_generation_fails [OF fb bad, of g] obtain pop g1 e
    where p: "initial_population cfg g = Inr (pop, g1)" "generation cfg 0 pop g1 = Inl e"
    by blast
  from a obtain m where m: "nat (NUM_GENERATIONS cfg) = Suc m"
    by (cases "nat (NUM_GENERATIONS cfg)") auto
  from run_generations_first_failure [OF p(2), of m]
  have "run_generations cfg (nat (NUM_GENERATIONS cfg)) pop g1 = Inl e" by (simp add: m)
  with p(1) have "genetic_algorithm cfg g = Inl e"
    by (simp add: genetic_algorithm_def population_at_def)
  with p show "\<exists>pop g1 e. initial_population cfg g = Inr (pop, g1)
         \<and> generation cfg 0 pop g1 = Inl e
         \<and> genetic_algorithm cfg g = Inl e"
    by blast
qed

theorem no_configuration_check_witness:
  "config_ok (default_config\<lparr>SCALE_C_MAJOR := []\<rparr>)
   \<and> (\<exists>best g'. genetic_algorithm (default_config\<lparr>SCALE_C_MAJOR := []\<rparr>) example_rng
                  = Inr (best, g'))
   \<and> fretboard_ok (default_config\<lparr>MELODY_LENGTH := 1\<rparr>)
   \<and> 1 \<le> NUM_GENERATIONS (default_config\<lparr>MELODY_LENGTH := 1\<rparr>)
   \<and> MELODY_LENGTH (default_config\<lparr>MELODY_LENGTH := 1\<rparr>) < 2
   \<and> (\<exists>pop g1 e. initial_population (default_config\<lparr>MELODY_LENGTH := 1\<rparr>) example_rng
                    = Inr (pop, g1)
         \<and> genetic_algorithm (default_config\<lparr>MELODY_LENGTH := 1\<rparr>) example_rng = Inl e)"
proof -
  let ?E = "default_config\<lparr>SCALE_C_MAJOR := []\<rparr>"
  let ?S = "default_config\<lparr>MELODY_LENGTH := 1\<rparr>"
  have ok: "config_ok ?E"
    by (simp add: config_ok_def fretboard_ok_def default_config_def)
  have fb: "fretboard_ok ?S" and gen: "1 \<le> NUM_GENERATIONS ?S"
    and short: "MELODY_LENGTH ?S < 2"
    by (simp_all add: fretboard_ok_def default_config_def)
  have "config_ok ?E \<longrightarrow> (\<exists>best g'. genetic_algorithm ?E example_rng = Inr (best, g'))"
    using no_configuration_check [of ?E example_rng] by (elim conjE)
  then have runs: "\<exists>best g'. genetic_algorithm ?E example_rng = Inr (best, g')"
    using ok by (rule mp)
  have "fretboard_ok ?S \<and> 1 \<le> NUM_GENERATIONS ?S
        \<and> (MELODY_LENGTH ?S < 2 \<or> POPULATION_SIZE ?S < 1) \<longrightarrow>
      (\<exists>pop g1 e. initial_population ?S example_rng = Inr (pop, g1)
         \<and> generation ?S 0 pop g1 = Inl e
         \<and> genetic_algorithm ?S example_rng = Inl e)"
    using no_configuration_check [of ?S example_rng] by (elim conjE)
  moreover have "fretboard_ok ?S \<and> 1 \<le> NUM_GENERATIONS ?S
        \<and> (MELODY_LENGTH ?S < 2 \<or> POPULATION_SIZE ?S < 1)"
    using fb gen short by blast
  ultimately have "\<exists>pop g1 e. initial_population ?S example_rng = Inr (pop, g1)
         \<and> generation ?S 0 pop g1 = Inl e
         \<and> genetic_algorithm ?S example_rng = Inl e"
    by (rule mp)
  then have fails: "\<exists>pop g1 e. initial_population ?S example_rng = Inr (pop, g1)
         \<and> genetic_algorithm ?S example_rng = Inl e"
    by blast
  from ok runs fb gen short fails show ?thesis by (intro conjI)
qed

end
